theory Spec2Isabelle
  imports Main
begin

section \<open>Strings of the router\<close>

text \<open>
  The router (\<^verbatim>\<open>src/llm-router.ts\<close>) and the backend client
  (\<^verbatim>\<open>src/ollama-client.ts\<close>) work on JavaScript strings. A string is modelled as a
  \<^typ>\<open>string\<close> whose characters are the code units \<open>0x00\<close> to \<open>0xFF\<close> (the Latin-1
  range of UTF-16): the model covers the messages and keywords written with these code
  units, on which \<^verbatim>\<open>toLowerCase\<close>, \<^verbatim>\<open>trim\<close>, \<^verbatim>\<open>split\<close> and \<^verbatim>\<open>replace\<close> stay inside the
  range.
\<close>

definition isSpace :: "char \<Rightarrow> bool" where
  \<comment> \<open>\<^verbatim>\<open>\s\<close> and the characters removed by \<^verbatim>\<open>trim\<close>: TAB, LF, VT, FF, CR, SP, NBSP.\<close>
  "isSpace c \<longleftrightarrow> c \<in> set [CHR 0x09, CHR 0x0A, CHR 0x0B, CHR 0x0C, CHR 0x0D, CHR 0x20, CHR 0xA0]"

definition isWordChar :: "char \<Rightarrow> bool" where
  \<comment> \<open>\<^verbatim>\<open>\w\<close>: \<^verbatim>\<open>[A-Za-z0-9_]\<close>.\<close>
  "isWordChar c \<longleftrightarrow>
     (let n = (of_char c :: nat)
      in (48 \<le> n \<and> n \<le> 57) \<or> (65 \<le> n \<and> n \<le> 90) \<or> n = 95 \<or> (97 \<le> n \<and> n \<le> 122))"

definition toLowerCaseChar :: "char \<Rightarrow> char" where
  \<comment> \<open>\<^verbatim>\<open>A-Z\<close> and the Latin-1 capitals \<open>0xC0\<close> to \<open>0xDE\<close> (not the sign \<open>0xD7\<close>) move up by 32.\<close>
  "toLowerCaseChar c =
     (let n = (of_char c :: nat)
      in if (65 \<le> n \<and> n \<le> 90) \<or> (192 \<le> n \<and> n \<le> 222 \<and> n \<noteq> 215)
         then char_of (n + 32) else c)"

definition toLowerCase :: "string \<Rightarrow> string" where
  "toLowerCase s = map toLowerCaseChar s"

definition trim :: "string \<Rightarrow> string" where
  "trim s = rev (dropWhile isSpace (rev (dropWhile isSpace s)))"

fun join :: "string list \<Rightarrow> string" where
  \<comment> \<open>\<^verbatim>\<open>xs.join(' ')\<close>\<close>
  "join [] = []"
| "join [x] = x"
| "join (x # y # ys) = x @ CHR 0x20 # join (y # ys)"

subsection \<open>The regular expressions written in the source\<close>

definition stripMention :: "string \<Rightarrow> string" where
  \<comment> \<open>\<^verbatim>\<open>s.replace(/^@\S+\s*/u, '')\<close>: an \<^verbatim>\<open>@\<close>, one or more non-space characters (greedy),
      then any run of spaces; the string is unchanged when the pattern does not match.\<close>
  "stripMention s =
     (case s of
        [] \<Rightarrow> s
      | a # r \<Rightarrow>
          if a = CHR ''@'' \<and> r \<noteq> [] \<and> \<not> isSpace (hd r)
          then dropWhile isSpace (dropWhile (\<lambda>c. \<not> isSpace c) r)
          else s)"

definition matchesLocal :: "string \<Rightarrow> bool" where
  \<comment> \<open>the prefix \<^verbatim>\<open>^!local\<close> under the flag \<^verbatim>\<open>i\<close>: six characters that are
      \<^verbatim>\<open>!local\<close> up to the case of the letters.\<close>
  "matchesLocal s \<longleftrightarrow> toLowerCase (take 6 s) = ''!local''"

definition stripLocal :: "string \<Rightarrow> string" where
  \<comment> \<open>\<^verbatim>\<open>s.replace(/^!local\s*/i, '')\<close>\<close>
  "stripLocal s = (if matchesLocal s then dropWhile isSpace (drop 6 s) else s)"

definition testLocalDirective :: "string \<Rightarrow> bool" where
  \<comment> \<open>\<^verbatim>\<open>/^!local\b/i.test(s)\<close>: after the final \<^verbatim>\<open>l\<close>, a word character, the
      boundary \<^verbatim>\<open>\b\<close> holds when the string ends or a non-word character follows.\<close>
  "testLocalDirective s \<longleftrightarrow>
     matchesLocal s \<and> (case drop 6 s of [] \<Rightarrow> True | c # _ \<Rightarrow> \<not> isWordChar c)"

function splitWs :: "string \<Rightarrow> string list" where
  \<comment> \<open>\<^verbatim>\<open>s.split(/\s+/)\<close>: every maximal run of spaces is one separator; a separator at
      either end leaves an empty piece there, and the empty string gives one empty piece.\<close>
  "splitWs [] = [[]]"
| "splitWs (c # cs) =
     (if isSpace c then [] # splitWs (dropWhile isSpace cs)
      else (case splitWs cs of [] \<Rightarrow> [[c]] | w # ws \<Rightarrow> (c # w) # ws))"
  by pat_completeness auto
termination
  by (relation "measure length") (auto simp: less_Suc_eq_le length_dropWhile_le)

definition lettersOnly :: "string \<Rightarrow> string" where
  \<comment> \<open>\<^verbatim>\<open>s.replace(/[^a-z]/g, '')\<close>\<close>
  "lettersOnly s = filter (\<lambda>c. 97 \<le> (of_char c :: nat) \<and> (of_char c :: nat) \<le> 122) s"

function replaceWsRuns :: "string \<Rightarrow> string" where
  \<comment> \<open>\<^verbatim>\<open>s.replace(/\s+/g, '\\s+')\<close>: every maximal run of spaces becomes the three
      characters backslash, \<^verbatim>\<open>s\<close>, \<^verbatim>\<open>+\<close>.\<close>
  "replaceWsRuns [] = []"
| "replaceWsRuns (c # cs) =
     (if isSpace c then CHR 0x5C # CHR ''s'' # CHR ''+'' # replaceWsRuns (dropWhile isSpace cs)
      else c # replaceWsRuns cs)"
  by pat_completeness auto
termination
  by (relation "measure length") (auto simp: less_Suc_eq_le length_dropWhile_le)

section \<open>Data model\<close>

record NewMessage =
  content :: string
  is_from_me :: bool
  is_bot_message :: bool

record OllamaModels =
  simple :: string
  general :: string
  reasoning :: string

record OllamaConfig =
  baseUrl :: string
  timeoutMs :: int
  models :: OllamaModels

record RoutingRules =
  maxWordsForSimple :: int
  privacyKeywords :: "string list"
  simpleStarters :: "string list"

record RoutingConfig =
  enabled :: bool
  ollama :: OllamaConfig
  routing :: RoutingRules

datatype RouteDecision = OllamaForced | OllamaSimple | OllamaPrivacy | Claude

text \<open>What a call of the router can throw.\<close>

datatype js_error = TypeError | SyntaxError

section \<open>Subject message and bare text\<close>

definition lastUserMessage :: "NewMessage list \<Rightarrow> NewMessage option" where
  \<comment> \<open>The last message that is neither from the automation nor from a bot, else the last
      message; \<open>None\<close> is \<^verbatim>\<open>undefined\<close>, the value of \<^verbatim>\<open>messages[-1]\<close> on an empty array.\<close>
  "lastUserMessage messages =
     (let userMessages = filter (\<lambda>m. \<not> is_from_me m \<and> \<not> is_bot_message m) messages
      in if length userMessages > 0 then Some (last userMessages)
         else if messages = [] then None else Some (last messages))"

definition extractLastUserText :: "NewMessage list \<Rightarrow> js_error + string" where
  \<comment> \<open>Reading \<^verbatim>\<open>.content\<close> of \<^verbatim>\<open>undefined\<close> throws a TypeError.\<close>
  "extractLastUserText messages =
     (case lastUserMessage messages of
        None \<Rightarrow> Inl TypeError
      | Some m \<Rightarrow> Inr (trim (stripLocal (stripMention (content m)))))"

definition mentionStripped :: "NewMessage list \<Rightarrow> js_error + string" where
  "mentionStripped messages =
     (case lastUserMessage messages of
        None \<Rightarrow> Inl TypeError
      | Some m \<Rightarrow> Inr (trim (stripMention (content m))))"

section \<open>Privacy keywords as regular expressions\<close>

text \<open>
  \<^verbatim>\<open>hasPrivacyKeyword\<close> hands each keyword, lower-cased and with its runs of spaces
  replaced, to \<^verbatim>\<open>new RegExp\<close> between two \<^verbatim>\<open>\b\<close>, without escaping it. The pattern
  language is written out for a fragment: literal characters, the escapes \<^verbatim>\<open>\b\<close>,
  \<^verbatim>\<open>\s\<close> and backslash before a syntax character, and the quantifiers \<^verbatim>\<open>*\<close>, \<^verbatim>\<open>+\<close>,
  \<^verbatim>\<open>?\<close> (each with an optional lazy mark \<^verbatim>\<open>?\<close>, which does not change whether a
  match exists). A pattern that ECMAScript rejects inside this fragment is \<open>Rejected\<close>,
  and so is a group or class that is never closed. Every other pattern is \<open>Outside\<close>
  the fragment: there the regular-expression engine of the runtime, which is not part of
  the repository, is a parameter \<open>engine\<close> of the model. It maps the source of a pattern
  to \<open>None\<close> when \<^verbatim>\<open>new RegExp\<close> throws and to the function \<^verbatim>\<open>test\<close> of the compiled
  pattern otherwise, and every property below holds whatever it is.
\<close>

datatype atom = Lit char | SpaceClass

datatype quantifier = One | Opt | Star | Plus

datatype item = WordBoundary | Rep atom quantifier

datatype parse_result = Parsed "item list" | Rejected | Outside

type_synonym regexp_engine = "string \<Rightarrow> (string \<Rightarrow> bool) option"

definition isSyntaxCharacter :: "char \<Rightarrow> bool" where
  "isSyntaxCharacter c \<longleftrightarrow> c \<in> set ''^$.*+?()[]{}|'' \<or> c = CHR 0x5C"

definition isQuantifierChar :: "char \<Rightarrow> bool" where
  "isQuantifierChar c \<longleftrightarrow> c \<in> set ''*+?''"

definition dropLazy :: "string \<Rightarrow> string" where
  "dropLazy r = (case r of [] \<Rightarrow> [] | c # cs \<Rightarrow> if c = CHR ''?'' then cs else r)"

definition takeQuantifier :: "string \<Rightarrow> quantifier \<times> string" where
  \<comment> \<open>the quantifier that follows an atom, and the rest of the pattern\<close>
  "takeQuantifier r =
     (case r of
        [] \<Rightarrow> (One, [])
      | c # cs \<Rightarrow>
          if c = CHR ''*'' then (Star, dropLazy cs)
          else if c = CHR ''+'' then (Plus, dropLazy cs)
          else if c = CHR ''?'' then (Opt, dropLazy cs)
          else (One, r))"

definition consItem :: "item \<Rightarrow> parse_result \<Rightarrow> parse_result" where
  "consItem i r = (case r of Parsed is \<Rightarrow> Parsed (i # is) | Rejected \<Rightarrow> Rejected | Outside \<Rightarrow> Outside)"

function parseTerms :: "string \<Rightarrow> parse_result" where
  "parseTerms [] = Parsed []"
| "parseTerms (c # cs) =
     (if c = CHR 0x5C then
        (case cs of
           [] \<Rightarrow> Rejected
         | e # r \<Rightarrow>
             if e = CHR ''b'' then
               (if r \<noteq> [] \<and> isQuantifierChar (hd r) then Rejected
                else consItem WordBoundary (parseTerms r))
             else if e = CHR ''s'' \<or> isSyntaxCharacter e then
               (if r \<noteq> [] \<and> hd r = CHR ''{'' then Outside
                else consItem (Rep (if e = CHR ''s'' then SpaceClass else Lit e)
                                 (fst (takeQuantifier r)))
                       (parseTerms (snd (takeQuantifier r))))
             else Outside)
      else if isQuantifierChar c then Rejected
      else if c = CHR ''('' then (if CHR '')'' \<in> set cs then Outside else Rejected)
      else if c = CHR '')'' then Rejected
      else if c = CHR ''['' then (if CHR '']'' \<in> set cs then Outside else Rejected)
      else if c \<in> set ''{|^$.'' then Outside
      else if cs \<noteq> [] \<and> hd cs = CHR ''{'' then Outside
      else consItem (Rep (Lit c) (fst (takeQuantifier cs)))
             (parseTerms (snd (takeQuantifier cs))))"
  by pat_completeness auto
termination
proof -
  have lazy: "length (dropLazy r) \<le> length r" for r
    by (simp add: dropLazy_def split: list.splits)
  have quant: "length (snd (takeQuantifier r)) \<le> length r" for r
    using lazy [of "tl r"] by (cases r) (auto simp: takeQuantifier_def)
  have shorter: "length (snd (takeQuantifier r)) < Suc (length r)"
    and shorter2: "length (snd (takeQuantifier r)) < Suc (Suc (length r))" for r
    using quant [of r] by simp_all
  show ?thesis
    by (relation "measure length") (auto simp: shorter shorter2)
qed

definition atomMatches :: "atom \<Rightarrow> char \<Rightarrow> bool" where
  "atomMatches a c = (case a of Lit l \<Rightarrow> c = l | SpaceClass \<Rightarrow> isSpace c)"

definition atBoundary :: "char option \<Rightarrow> string \<Rightarrow> bool" where
  \<comment> \<open>\<^verbatim>\<open>\b\<close> between the character before the position and the one after it\<close>
  "atBoundary prev s \<longleftrightarrow>
     (case prev of None \<Rightarrow> False | Some p \<Rightarrow> isWordChar p)
       \<noteq> (case s of [] \<Rightarrow> False | c # _ \<Rightarrow> isWordChar c)"

fun matchHere :: "item list \<Rightarrow> char option \<Rightarrow> string \<Rightarrow> bool" where
  "matchHere [] prev s = True"
| "matchHere (WordBoundary # is) prev s = (atBoundary prev s \<and> matchHere is prev s)"
| "matchHere (Rep a One # is) prev s =
     (case s of [] \<Rightarrow> False | c # cs \<Rightarrow> atomMatches a c \<and> matchHere is (Some c) cs)"
| "matchHere (Rep a Opt # is) prev s =
     (matchHere is prev s
      \<or> (case s of [] \<Rightarrow> False | c # cs \<Rightarrow> atomMatches a c \<and> matchHere is (Some c) cs))"
| "matchHere (Rep a Star # is) prev s =
     (matchHere is prev s
      \<or> (case s of [] \<Rightarrow> False
          | c # cs \<Rightarrow> atomMatches a c \<and> matchHere (Rep a Star # is) (Some c) cs))"
| "matchHere (Rep a Plus # is) prev s =
     (case s of [] \<Rightarrow> False
      | c # cs \<Rightarrow> atomMatches a c \<and> matchHere (Rep a Star # is) (Some c) cs)"

fun searchFrom :: "item list \<Rightarrow> char option \<Rightarrow> string \<Rightarrow> bool" where
  \<comment> \<open>\<^verbatim>\<open>test\<close> tries every start position, the end of the string included\<close>
  "searchFrom is prev [] = matchHere is prev []"
| "searchFrom is prev (c # cs) = (matchHere is prev (c # cs) \<or> searchFrom is (Some c) cs)"

definition RegExp_test :: "item list \<Rightarrow> string \<Rightarrow> bool" where
  "RegExp_test is s = searchFrom is None s"

definition keywordPattern :: "string \<Rightarrow> string" where
  \<comment> \<open>the template \<^verbatim>\<open>`\\b${kw.toLowerCase().replace(/\s+/g, '\\s+')}\\b`\<close>\<close>
  "keywordPattern kw =
     [CHR 0x5C, CHR ''b''] @ replaceWsRuns (toLowerCase kw) @ [CHR 0x5C, CHR ''b'']"

definition RegExp_new :: "regexp_engine \<Rightarrow> string \<Rightarrow> js_error + (string \<Rightarrow> bool)" where
  \<comment> \<open>\<^verbatim>\<open>new RegExp(source)\<close>: a SyntaxError, or the function \<^verbatim>\<open>test\<close> of the pattern\<close>
  "RegExp_new engine source =
     (case parseTerms source of
        Parsed pattern \<Rightarrow> Inr (RegExp_test pattern)
      | Rejected \<Rightarrow> Inl SyntaxError
      | Outside \<Rightarrow> (case engine source of None \<Rightarrow> Inl SyntaxError | Some test \<Rightarrow> Inr test))"

fun someKeyword :: "regexp_engine \<Rightarrow> string \<Rightarrow> string list \<Rightarrow> js_error + bool" where
  \<comment> \<open>\<^verbatim>\<open>keywords.some(...)\<close>: in order, stopping at the first match; an exception of
      \<^verbatim>\<open>new RegExp\<close> ends the call.\<close>
  "someKeyword engine allText [] = Inr False"
| "someKeyword engine allText (kw # kws) =
     (case RegExp_new engine (keywordPattern kw) of
        Inl e \<Rightarrow> Inl e
      | Inr test \<Rightarrow>
          if test allText then Inr True else someKeyword engine allText kws)"

definition hasPrivacyKeyword ::
  "regexp_engine \<Rightarrow> NewMessage list \<Rightarrow> string list \<Rightarrow> js_error + bool" where
  "hasPrivacyKeyword engine messages keywords =
     someKeyword engine (toLowerCase (join (map content messages))) keywords"

section \<open>The simple-question heuristic\<close>

definition COMMAND_STARTERS :: "string list" where
  "COMMAND_STARTERS = [''define'', ''explain'']"

definition isSimpleQuestion :: "string \<Rightarrow> int \<Rightarrow> string list \<Rightarrow> bool" where
  \<comment> \<open>\<^verbatim>\<open>words[0]\<close> is \<open>hd words\<close>: \<open>splitWs\<close> never returns the empty list\<close>
  "isSimpleQuestion text' maxWords starters =
     (let words = splitWs (trim text')
      in if int (length words) > maxWords then False
         else let firstWord = lettersOnly (toLowerCase (hd words))
              in if firstWord \<notin> set starters then False
                 else firstWord \<in> set COMMAND_STARTERS \<or> CHR ''?'' \<in> set text')"

section \<open>The classifier\<close>

text \<open>
  The module keeps the parsed configuration in \<^verbatim>\<open>cachedConfig\<close>. \<open>loadConfig\<close> takes
  what reading and parsing \<^verbatim>\<open>llm-routing.json\<close> gives at this moment (\<open>None\<close> when
  the file is missing or not valid JSON) and the cache, and returns the configuration
  with the new cache. Only configurations of the declared shape are modelled.
\<close>

definition loadConfig ::
  "RoutingConfig option \<Rightarrow> RoutingConfig option \<Rightarrow> RoutingConfig option \<times> RoutingConfig option" where
  "loadConfig file cachedConfig =
     (case cachedConfig of
        Some c \<Rightarrow> (Some c, cachedConfig)
      | None \<Rightarrow> (case file of Some c \<Rightarrow> (Some c, Some c) | None \<Rightarrow> (None, None)))"

definition classify ::
  "regexp_engine \<Rightarrow> RoutingConfig option \<Rightarrow> NewMessage list \<Rightarrow> js_error + RouteDecision" where
  \<comment> \<open>the body of \<^verbatim>\<open>classifyMessages\<close> after \<^verbatim>\<open>loadConfig()\<close>\<close>
  "classify engine cfg messages =
     (case cfg of
        None \<Rightarrow> Inr Claude
      | Some c \<Rightarrow>
          if \<not> enabled c then Inr Claude
          else
            (case mentionStripped messages of
               Inl e \<Rightarrow> Inl e
             | Inr stripped \<Rightarrow>
                 if testLocalDirective stripped then Inr OllamaForced
                 else
                   (case hasPrivacyKeyword engine messages (privacyKeywords (routing c)) of
                      Inl e \<Rightarrow> Inl e
                    | Inr True \<Rightarrow> Inr OllamaPrivacy
                    | Inr False \<Rightarrow>
                        (case extractLastUserText messages of
                           Inl e \<Rightarrow> Inl e
                         | Inr userText \<Rightarrow>
                             if isSimpleQuestion userText (maxWordsForSimple (routing c))
                                  (simpleStarters (routing c))
                             then Inr OllamaSimple else Inr Claude))))"

definition classifyMessages ::
  "regexp_engine \<Rightarrow> RoutingConfig option \<Rightarrow> NewMessage list \<Rightarrow> RoutingConfig option
     \<Rightarrow> (js_error + RouteDecision) \<times> RoutingConfig option" where
  "classifyMessages engine file messages cachedConfig =
     (let (cfg, cache') = loadConfig file cachedConfig in (classify engine cfg messages, cache'))"

section \<open>The backend client\<close>

text \<open>
  \<^verbatim>\<open>queryOllama\<close> sends one request with \<^verbatim>\<open>fetch\<close> under an abort timer. The network
  is a function from the request to what \<^verbatim>\<open>fetch\<close> settles with; a timer that fires
  first shows as a rejection whose \<^verbatim>\<open>name\<close> is \<^verbatim>\<open>AbortError\<close>, of \<^verbatim>\<open>fetch\<close> or of
  \<^verbatim>\<open>res.json()\<close>. Real time itself is not modelled.
\<close>

datatype exn = Exn (name: string) (message: string)

text \<open>The value \<^verbatim>\<open>res.json()\<close> parses; numbers are kept to the integers.\<close>

datatype json =
    JNull | JBool bool | JNumber int | JString string
  | JArray "json list" | JObject "(string \<times> json) list"

datatype json_outcome = JsonRejected exn | JsonValue json

record Response =
  status :: nat
  statusText :: string
  body :: json_outcome

datatype fetch_outcome = FetchRejected exn | FetchResponse Response

record OllamaRequest =
  req_url :: string
  req_model :: string
  req_prompt :: string
  req_stream :: bool
  req_timeoutMs :: int

definition ok :: "Response \<Rightarrow> bool" where
  \<comment> \<open>\<^verbatim>\<open>res.ok\<close> of the Fetch API: a status from 200 to 299\<close>
  "ok res \<longleftrightarrow> 200 \<le> status res \<and> status res \<le> 299"

definition digitChar :: "nat \<Rightarrow> char" where
  "digitChar d = ''0123456789'' ! d"

fun showNat :: "nat \<Rightarrow> string" where
  \<comment> \<open>the decimal digits of a number, as a template literal prints it\<close>
  "showNat n = (if n < 10 then [digitChar n] else showNat (n div 10) @ [digitChar (n mod 10)])"

definition showInt :: "int \<Rightarrow> string" where
  "showInt i = (if i < 0 then CHR ''-'' # showNat (nat (- i)) else showNat (nat i))"

definition getProp :: "json \<Rightarrow> string \<Rightarrow> exn + json option" where
  \<comment> \<open>\<^verbatim>\<open>data.key\<close>: a TypeError on \<^verbatim>\<open>null\<close>, \<^verbatim>\<open>undefined\<close> (\<open>None\<close>) when the value has no
      such property; of a key written twice \<^verbatim>\<open>JSON.parse\<close> keeps the last value.\<close>
  "getProp data key =
     (case data of
        JNull \<Rightarrow> Inl (Exn ''TypeError'' ''Cannot read properties of null'')
      | JObject kvs \<Rightarrow> Inr (map_of (rev kvs) key)
      | _ \<Rightarrow> Inr None)"

definition truthy :: "json option \<Rightarrow> bool" where
  "truthy v =
     (case v of
        None \<Rightarrow> False
      | Some JNull \<Rightarrow> False
      | Some (JBool b) \<Rightarrow> b
      | Some (JNumber n) \<Rightarrow> n \<noteq> 0
      | Some (JString t) \<Rightarrow> t \<noteq> []
      | Some _ \<Rightarrow> True)"

definition rethrow :: "int \<Rightarrow> exn \<Rightarrow> exn" where
  \<comment> \<open>the \<^verbatim>\<open>catch\<close> block of \<^verbatim>\<open>queryOllama\<close>\<close>
  "rethrow ms err =
     (if name err = ''AbortError''
      then Exn ''Error'' (''Ollama timed out after '' @ showInt ms @ ''ms'')
      else err)"

definition queryOllamaBody :: "fetch_outcome \<Rightarrow> exn + string" where
  \<comment> \<open>the \<^verbatim>\<open>try\<close> block of \<^verbatim>\<open>queryOllama\<close>, given what \<^verbatim>\<open>fetch\<close> settled with; the
      test \<^verbatim>\<open>!data.done || typeof data.response !== 'string'\<close> is the branch on \<open>done\<close>
      and on the shape of \<open>response\<close>\<close>
  "queryOllamaBody fetched =
     (case fetched of
        FetchRejected err \<Rightarrow> Inl err
      | FetchResponse res \<Rightarrow>
          if \<not> ok res
          then Inl (Exn ''Error'' (''Ollama HTTP '' @ showNat (status res) @ '': '' @ statusText res))
          else
            (case body res of
               JsonRejected err \<Rightarrow> Inl err
             | JsonValue data \<Rightarrow>
                 (case getProp data ''done'' of
                    Inl err \<Rightarrow> Inl err
                  | Inr done \<Rightarrow>
                      (case getProp data ''response'' of
                         Inl err \<Rightarrow> Inl err
                       | Inr (Some (JString response)) \<Rightarrow>
                           if \<not> truthy done
                           then Inl (Exn ''Error'' ''Unexpected Ollama response format'')
                           else Inr (trim response)
                       | Inr _ \<Rightarrow> Inl (Exn ''Error'' ''Unexpected Ollama response format'')))))"

definition queryOllama ::
  "(OllamaRequest \<Rightarrow> fetch_outcome) \<Rightarrow> string \<Rightarrow> string \<Rightarrow> string \<Rightarrow> int
     \<Rightarrow> (exn + string) \<times> OllamaRequest list" where
  \<comment> \<open>the result, and the requests sent\<close>
  "queryOllama net prompt model' base ms =
     (let req = \<lparr>req_url = base @ ''/api/generate'', req_model = model', req_prompt = prompt,
                 req_stream = False, req_timeoutMs = ms\<rparr>
      in (case queryOllamaBody (net req) of
            Inl err \<Rightarrow> Inl (rethrow ms err)
          | Inr text' \<Rightarrow> Inr text',
          [req]))"

section \<open>The dispatcher\<close>

datatype indicator = Private | Local

record RouteResult =
  returned :: "js_error + (indicator \<times> string) option"
  requests :: "OllamaRequest list"
  cacheAfter :: "RoutingConfig option"

definition tryOllamaRoute ::
  "regexp_engine \<Rightarrow> (OllamaRequest \<Rightarrow> fetch_outcome) \<Rightarrow> RoutingConfig option
     \<Rightarrow> NewMessage list \<Rightarrow> string \<Rightarrow> RoutingConfig option \<Rightarrow> RouteResult" where
  \<comment> \<open>\<open>Inr None\<close> is \<^verbatim>\<open>null\<close>; \<open>Inr (Some (i, r))\<close> is the string made of the
      indicator of \<open>i\<close>, a space and \<open>r\<close>; \<open>Inl e\<close> is an exception that leaves the call.\<close>
  "tryOllamaRoute engine net file messages groupName cachedConfig =
     (let (cfg, cache1) = loadConfig file cachedConfig
      in case cfg of
           None \<Rightarrow> \<lparr>returned = Inr None, requests = [], cacheAfter = cache1\<rparr>
         | Some c \<Rightarrow>
             if \<not> enabled c then \<lparr>returned = Inr None, requests = [], cacheAfter = cache1\<rparr>
             else
               let (decision, cache2) = classifyMessages engine file messages cache1
               in case decision of
                    Inl e \<Rightarrow> \<lparr>returned = Inl e, requests = [], cacheAfter = cache2\<rparr>
                  | Inr Claude \<Rightarrow> \<lparr>returned = Inr None, requests = [], cacheAfter = cache2\<rparr>
                  | Inr d \<Rightarrow>
                      (case extractLastUserText messages of
                         Inl e \<Rightarrow> \<lparr>returned = Inl e, requests = [], cacheAfter = cache2\<rparr>
                       | Inr userText \<Rightarrow>
                           let model' = (if d = OllamaSimple then simple (models (ollama c))
                                         else general (models (ollama c)));
                               (response, sent) =
                                  queryOllama net userText model' (baseUrl (ollama c))
                                    (timeoutMs (ollama c))
                           in case response of
                                Inl err \<Rightarrow>
                                  \<lparr>returned = Inr None, requests = sent, cacheAfter = cache2\<rparr>
                              | Inr r \<Rightarrow>
                                  \<lparr>returned =
                                     Inr (Some (if d = OllamaPrivacy then Private else Local, r)),
                                   requests = sent, cacheAfter = cache2\<rparr>))"

section \<open>Example inputs\<close>

definition userMessage :: "string \<Rightarrow> NewMessage" where
  "userMessage s = \<lparr>content = s, is_from_me = False, is_bot_message = False\<rparr>"

definition botMessage :: "string \<Rightarrow> NewMessage" where
  "botMessage s = \<lparr>content = s, is_from_me = False, is_bot_message = True\<rparr>"

definition exampleNet :: "fetch_outcome \<Rightarrow> OllamaRequest \<Rightarrow> fetch_outcome" where
  \<comment> \<open>a network on which every request settles with \<open>f\<close>\<close>
  "exampleNet f req = f"

definition exampleEngine :: regexp_engine where
  \<comment> \<open>an engine for the examples, none of which has a pattern outside the fragment\<close>
  "exampleEngine source = None"

definition exampleConfig :: "string list \<Rightarrow> string list \<Rightarrow> RoutingConfig" where
  "exampleConfig keywords starters =
     \<lparr>enabled = True,
      ollama = \<lparr>baseUrl = ''http://localhost:11434'', timeoutMs = 30000,
                models = \<lparr>simple = ''small'', general = ''medium'', reasoning = ''large''\<rparr>\<rparr>,
      routing = \<lparr>maxWordsForSimple = 6, privacyKeywords = keywords, simpleStarters = starters\<rparr>\<rparr>"

section \<open>The specification's notions\<close>

definition beginsWithDirective :: "string \<Rightarrow> bool" where
  \<comment> \<open>the text begins with the token \<^verbatim>\<open>!local\<close>, in any case, and the token ends at a
      word boundary: the text ends there or a non-word character follows\<close>
  "beginsWithDirective s \<longleftrightarrow>
     length s \<ge> 6 \<and> map toLowerCaseChar (take 6 s) = ''!local''
     \<and> (length s = 6 \<or> \<not> isWordChar (s ! 6))"

definition hasLocalPrefix :: "string \<Rightarrow> bool" where
  \<comment> \<open>the first six characters are \<^verbatim>\<open>!local\<close>, in any case, whatever follows\<close>
  "hasLocalPrefix s \<longleftrightarrow> map toLowerCaseChar (take 6 s) = ''!local''"

subsection \<open>Failure of the backend call\<close>

definition wellFormedPayload :: "json \<Rightarrow> bool" where
  \<comment> \<open>an object whose completed flag \<^verbatim>\<open>done\<close> is set and whose \<^verbatim>\<open>response\<close> is a string\<close>
  "wellFormedPayload data \<longleftrightarrow>
     (case data of
        JObject kvs \<Rightarrow>
          truthy (map_of (rev kvs) ''done'')
          \<and> (case map_of (rev kvs) ''response'' of Some (JString r) \<Rightarrow> True | _ \<Rightarrow> False)
      | _ \<Rightarrow> False)"

definition backendFails :: "fetch_outcome \<Rightarrow> bool" where
  \<comment> \<open>the request is rejected (network error, or the timer aborts it), the status is not
      a success, the body cannot be read as JSON (or the timer aborts the read), or the
      payload is malformed\<close>
  "backendFails f \<longleftrightarrow>
     (case f of
        FetchRejected err \<Rightarrow> True
      | FetchResponse res \<Rightarrow>
          \<not> ok res
          \<or> (case body res of JsonRejected err \<Rightarrow> True | JsonValue data \<Rightarrow> \<not> wellFormedPayload data))"

subsection \<open>Simple questions\<close>

function tokens :: "string \<Rightarrow> string list" where
  \<comment> \<open>the whitespace-separated tokens of a text\<close>
  "tokens s =
     (let t = dropWhile isSpace s
      in if t = [] then []
         else takeWhile (\<lambda>c. \<not> isSpace c) t # tokens (dropWhile (\<lambda>c. \<not> isSpace c) t))"
  by pat_completeness auto
termination
proof (relation "measure length")
  show "wf (measure length)" by simp
next
  fix s t :: string
  assume t: "t = dropWhile isSpace s" and ne: "t \<noteq> []"
  from ne obtain c r where cr: "t = c # r" by (cases t) auto
  from ne have "\<not> isSpace (hd t)" unfolding t by (rule hd_dropWhile)
  with cr have "\<not> isSpace c" by simp
  then have "dropWhile (\<lambda>c. \<not> isSpace c) t = dropWhile (\<lambda>c. \<not> isSpace c) r"
    using cr by simp
  moreover have "length r < length s"
    using cr t length_dropWhile_le [of isSpace s] by (metis length_Cons less_Suc_eq_le not_less)
  ultimately show "(dropWhile (\<lambda>c. \<not> isSpace c) t, s) \<in> measure length"
    using length_dropWhile_le [of "\<lambda>c. \<not> isSpace c" r] by simp
qed

definition firstToken :: "string \<Rightarrow> string" where
  \<comment> \<open>the first token, empty when the text has none\<close>
  "firstToken s = (case tokens s of [] \<Rightarrow> [] | w # _ \<Rightarrow> w)"

definition keepLetters :: "string \<Rightarrow> string" where
  \<comment> \<open>the letters \<^verbatim>\<open>a\<close> to \<^verbatim>\<open>z\<close> of a word, in order\<close>
  "keepLetters w = filter (\<lambda>c. c \<in> set ''abcdefghijklmnopqrstuvwxyz'') w"

definition normalizedFirstToken :: "string \<Rightarrow> string" where
  \<comment> \<open>the first token in lower case, its non-letters dropped\<close>
  "normalizedFirstToken s = keepLetters (toLowerCase (firstToken s))"

definition simpleAsSpecified :: "string \<Rightarrow> int \<Rightarrow> string list \<Rightarrow> bool" where
  \<comment> \<open>at most \<open>maxWords\<close> tokens; the first token, reduced to its lower-case letters, is a
      question starter; and it is a command starter or the text holds a question mark\<close>
  "simpleAsSpecified bare maxWords starters \<longleftrightarrow>
     int (length (tokens bare)) \<le> maxWords
     \<and> normalizedFirstToken bare \<in> set starters
     \<and> (normalizedFirstToken bare \<in> set COMMAND_STARTERS \<or> CHR ''?'' \<in> set bare)"

subsection \<open>Subject message and bare text\<close>

definition subjectMessage :: "NewMessage list \<Rightarrow> NewMessage" where
  \<comment> \<open>the last message authored neither by the automation nor by a bot; when there is
      none, the final message of the conversation\<close>
  "subjectMessage messages =
     (case filter (\<lambda>m. \<not> is_from_me m \<and> \<not> is_bot_message m) messages of
        [] \<Rightarrow> last messages
      | u # us \<Rightarrow> last (u # us))"

text \<open>
  The bare text in the words of claim C8: a mention is one non-whitespace token at the
  start of the string, an \<^verbatim>\<open>@\<close> and a name, immediately followed by whitespace; the
  directive is the token \<^verbatim>\<open>!local\<close>.
\<close>

definition claimedStripMention :: "string \<Rightarrow> string" where
  \<comment> \<open>the mention goes, with the whitespace after it, when whitespace follows it\<close>
  "claimedStripMention s =
     (let tok = takeWhile (\<lambda>c. \<not> isSpace c) s; rest = drop (length tok) s
      in if length tok \<ge> 2 \<and> hd tok = CHR ''@'' \<and> rest \<noteq> []
         then dropWhile isSpace rest else s)"

definition claimedStripDirective :: "string \<Rightarrow> string" where
  \<comment> \<open>the token \<^verbatim>\<open>!local\<close> goes, with the whitespace after it\<close>
  "claimedStripDirective s = (if beginsWithDirective s then dropWhile isSpace (drop 6 s) else s)"

definition claimedBareText :: "string \<Rightarrow> string" where
  "claimedBareText s = claimedStripDirective (claimedStripMention s)"

text \<open>
  The bare text as amended: a mention is an \<^verbatim>\<open>@\<close> and a name, taken with the whitespace
  after it, if there is any; the directive is the token \<^verbatim>\<open>!local\<close>, taken with the
  whitespace after it; the result is trimmed.
\<close>

definition mentionLength :: "string \<Rightarrow> nat" where
  "mentionLength s =
     (let tok = takeWhile (\<lambda>c. \<not> isSpace c) s
      in if length tok \<ge> 2 \<and> hd tok = CHR ''@''
         then length tok + length (takeWhile isSpace (drop (length tok) s))
         else 0)"

definition afterMention :: "string \<Rightarrow> string" where
  "afterMention s = drop (mentionLength s) s"



definition subjectText :: "NewMessage list \<Rightarrow> string" where
  \<comment> \<open>the content of the subject message without its mention, trimmed\<close>
  "subjectText messages = trim (afterMention (content (subjectMessage messages)))"

subsection \<open>Failure of the backend call as claimed\<close>

text \<open>
  The three conditions of claim C9: a status outside the success range, a payload whose
  completed flag is missing or false or whose generated text is not a string, and the
  timer firing before the exchange is over.
\<close>

definition statusOutsideSuccess :: "fetch_outcome \<Rightarrow> bool" where
  "statusOutsideSuccess f \<longleftrightarrow> (case f of FetchResponse res \<Rightarrow> \<not> ok res | FetchRejected err \<Rightarrow> False)"

definition payloadMalformed :: "fetch_outcome \<Rightarrow> bool" where
  "payloadMalformed f \<longleftrightarrow>
     (case f of
        FetchResponse res \<Rightarrow>
          (case body res of JsonValue data \<Rightarrow> \<not> wellFormedPayload data | JsonRejected err \<Rightarrow> False)
      | FetchRejected err \<Rightarrow> False)"

definition timedOut :: "fetch_outcome \<Rightarrow> bool" where
  "timedOut f \<longleftrightarrow>
     (case f of
        FetchRejected err \<Rightarrow> name err = ''AbortError''
      | FetchResponse res \<Rightarrow>
          ok res \<and> (case body res of JsonRejected err \<Rightarrow> name err = ''AbortError''
                      | JsonValue data \<Rightarrow> False))"

definition claimedFailure :: "fetch_outcome \<Rightarrow> bool" where
  "claimedFailure f \<longleftrightarrow> statusOutsideSuccess f \<or> payloadMalformed f \<or> timedOut f"

definition timeoutError :: "int \<Rightarrow> exn" where
  \<comment> \<open>the dedicated error of a timeout\<close>
  "timeoutError ms = Exn ''Error'' (''Ollama timed out after '' @ showInt ms @ ''ms'')"

subsection \<open>Privacy phrases\<close>

text \<open>
  A phrase occurs in a text as a whole word or phrase when some part of the text lies
  between two word boundaries and spells the lower-cased phrase: the same characters in
  the same order, each run of whitespace of the phrase standing for one or more
  whitespace characters of the text.
\<close>

datatype piece = Letter char | Gap

function pieces :: "string \<Rightarrow> piece list" where
  "pieces [] = []"
| "pieces (c # cs) =
     (if isSpace c then Gap # pieces (dropWhile isSpace cs) else Letter c # pieces cs)"
  by pat_completeness auto
termination
  by (relation "measure length") (auto simp: less_Suc_eq_le length_dropWhile_le)

fun spells :: "piece list \<Rightarrow> string \<Rightarrow> bool" where
  "spells [] m \<longleftrightarrow> m = []"
| "spells (Letter c # ps) m \<longleftrightarrow> (\<exists>m'. m = c # m' \<and> spells ps m')"
| "spells (Gap # ps) m \<longleftrightarrow>
     (\<exists>ws m'. m = ws @ m' \<and> ws \<noteq> [] \<and> (\<forall>c \<in> set ws. isSpace c) \<and> spells ps m')"

definition wordBoundary :: "string \<Rightarrow> string \<Rightarrow> bool" where
  "wordBoundary before after \<longleftrightarrow>
     (before \<noteq> [] \<and> isWordChar (last before)) \<noteq> (after \<noteq> [] \<and> isWordChar (hd after))"

definition containsPhrase :: "string \<Rightarrow> string \<Rightarrow> bool" where
  "containsPhrase phrase text' \<longleftrightarrow>
     (\<exists>before m after.
        text' = before @ m @ after \<and> spells (pieces (toLowerCase phrase)) m
        \<and> wordBoundary before (m @ after) \<and> wordBoundary (before @ m) after)"

definition literalKeyword :: "string \<Rightarrow> bool" where
  \<comment> \<open>a keyword that, lower-cased, holds no syntax character of the pattern language\<close>
  "literalKeyword kw \<longleftrightarrow> (\<forall>c \<in> set (toLowerCase kw). \<not> isSyntaxCharacter c)"

fun itemOf :: "piece \<Rightarrow> item" where
  \<comment> \<open>the pattern item that stands for a piece of a phrase\<close>
  "itemOf (Letter c) = Rep (Lit c) One"
| "itemOf Gap = Rep SpaceClass Plus"

definition lastOr :: "char option \<Rightarrow> string \<Rightarrow> char option" where
  \<comment> \<open>the character before a position, after reading \<open>m\<close> from a position that had
      \<open>prev\<close> before it\<close>
  "lastOr prev m = (if m = [] then prev else Some (last m))"

section \<open>Properties\<close>

subsection \<open>Auxiliary facts\<close>

lemma testLocalDirective_iff: "testLocalDirective s \<longleftrightarrow> beginsWithDirective s"
proof (cases "drop 6 s")
  case Nil
  then have "length s \<le> 6" by simp
  moreover have "length s = 6" if "map toLowerCaseChar (take 6 s) = ''!local''"
  proof -
    from that have "length (map toLowerCaseChar (take 6 s)) = 6" by simp
    with \<open>length s \<le> 6\<close> show ?thesis by simp
  qed
  ultimately show ?thesis
    using Nil by (auto simp: testLocalDirective_def beginsWithDirective_def matchesLocal_def toLowerCase_def)
next
  case (Cons c r)
  then have "length s > 6" by (metis drop_all list.distinct(1) not_le)
  moreover from Cons have "s ! 6 = c"
    by (metis Cons_nth_drop_Suc calculation list.inject)
  ultimately show ?thesis
    using Cons by (auto simp: testLocalDirective_def beginsWithDirective_def matchesLocal_def toLowerCase_def)
qed

lemma beginsWithDirective_prefix: "beginsWithDirective s \<Longrightarrow> hasLocalPrefix s"
  by (simp add: beginsWithDirective_def hasLocalPrefix_def)

lemma loadConfig_again:
  "loadConfig file (snd (loadConfig file cache)) = (fst (loadConfig file cache), snd (loadConfig file cache))"
  by (simp add: loadConfig_def split: option.splits)

lemma classifyMessages_fst:
  "fst (classifyMessages engine file messages cache)
     = classify engine (fst (loadConfig file cache)) messages"
  by (simp add: classifyMessages_def split: prod.splits)

lemma lastUserMessage_subject:
  "messages \<noteq> [] \<Longrightarrow> lastUserMessage messages = Some (subjectMessage messages)"
  by (simp add: lastUserMessage_def subjectMessage_def Let_def split: list.splits)

lemma drop_takeWhile: "drop (length (takeWhile P s)) s = dropWhile P s"
  by (induction s) simp_all

lemma drop_add: "drop (a + b) s = drop b (drop a s)"
  by (simp add: add.commute)

lemma drop_token_spaces:
  "drop (length (takeWhile P s) + length (takeWhile Q (drop (length (takeWhile P s)) s))) s
   = dropWhile Q (dropWhile P s)"
  by (simp only: drop_add drop_takeWhile)

lemma stripMention_afterMention: "stripMention s = afterMention s"
proof (cases s)
  case Nil
  then show ?thesis by (simp add: stripMention_def afterMention_def mentionLength_def)
next
  case (Cons a r)
  show ?thesis
  proof (cases "a = CHR ''@'' \<and> r \<noteq> [] \<and> \<not> isSpace (hd r)")
    case True
    then obtain b r' where r: "r = b # r'" and b: "\<not> isSpace b" by (cases r) auto
    from True have a: "\<not> isSpace a" by (simp add: isSpace_def)
    let ?n = "\<lambda>c. \<not> isSpace c"
    have tok: "length (takeWhile ?n s) \<ge> 2 \<and> hd (takeWhile ?n s) = CHR ''@''"
      using True Cons r a b by simp
    then have "mentionLength s = length (takeWhile ?n s)
                 + length (takeWhile isSpace (drop (length (takeWhile ?n s)) s))"
      by (simp add: mentionLength_def Let_def)
    then have "drop (mentionLength s) s = dropWhile isSpace (dropWhile ?n s)"
      by (simp only: drop_token_spaces)
    also have "\<dots> = dropWhile isSpace (dropWhile ?n r)"
      using Cons a by simp
    finally show ?thesis
      using True Cons by (simp add: stripMention_def afterMention_def)
  next
    case False
    then have "mentionLength s = 0"
      using Cons by (cases r) (auto simp: mentionLength_def Let_def)
    then show ?thesis using False Cons by (auto simp: stripMention_def afterMention_def)
  qed
qed

lemma mentionStripped_subjectText:
  "messages \<noteq> [] \<Longrightarrow> mentionStripped messages = Inr (subjectText messages)"
  by (simp add: mentionStripped_def lastUserMessage_subject subjectText_def
        stripMention_afterMention)

lemma claimedStripMention_cases:
  "claimedStripMention s = afterMention s
   \<or> (claimedStripMention s = s \<and> s \<noteq> [] \<and> hd s = CHR ''@'')"
proof -
  let ?n = "\<lambda>c. \<not> isSpace c"
  let ?tok = "takeWhile ?n s"
  show ?thesis
  proof (cases "length ?tok \<ge> 2 \<and> hd ?tok = CHR ''@''")
    case tok: True
    then have ne: "s \<noteq> []" and "?tok \<noteq> []" by auto
    then have hd: "hd s = CHR ''@''"
      using tok by (cases s) (auto split: if_splits)
    have m: "afterMention s = dropWhile isSpace (dropWhile ?n s)"
      using tok by (simp add: afterMention_def mentionLength_def Let_def drop_token_spaces)
    show ?thesis
    proof (cases "drop (length ?tok) s = []")
      case True
      with tok have "claimedStripMention s = s"
        by (simp add: claimedStripMention_def Let_def)
      then show ?thesis using ne hd by simp
    next
      case False
      with tok have "claimedStripMention s = dropWhile isSpace (drop (length ?tok) s)"
        by (simp add: claimedStripMention_def Let_def)
      then show ?thesis using m by (simp only: drop_takeWhile) simp
    qed
  next
    case False
    then have "mentionLength s = 0" by (auto simp: mentionLength_def Let_def)
    then show ?thesis
      using False by (auto simp: claimedStripMention_def afterMention_def Let_def)
  qed
qed

lemma lower_not_space:
  "toLowerCaseChar c \<in> set ''!local'' \<Longrightarrow> \<not> isSpace c"
  by (auto simp: isSpace_def toLowerCaseChar_def)

lemma hasLocalPrefix_chars:
  assumes "hasLocalPrefix s"
  shows "length s \<ge> 6" and "\<forall>c \<in> set (take 6 s). \<not> isSpace c"
proof -
  from assms have m: "map toLowerCaseChar (take 6 s) = ''!local''"
    by (simp add: hasLocalPrefix_def)
  then have "length (map toLowerCaseChar (take 6 s)) = 6" by simp
  then show "length s \<ge> 6" by simp
  show "\<forall>c \<in> set (take 6 s). \<not> isSpace c"
  proof
    fix c assume "c \<in> set (take 6 s)"
    then have "toLowerCaseChar c \<in> set (map toLowerCaseChar (take 6 s))" by simp
    then have "toLowerCaseChar c \<in> set ''!local''" unfolding m .
    then show "\<not> isSpace c" by (rule lower_not_space)
  qed
qed

lemma trim_after_prefix:
  assumes "hasLocalPrefix s"
  shows "trim s = take 6 s @ rev (dropWhile isSpace (rev (drop 6 s)))"
proof -
  note c = hasLocalPrefix_chars [OF assms]
  from c(1) obtain a r where ar: "s = a # r" by (cases s) auto
  with c have "\<not> isSpace a" by (cases "take 6 s") auto
  then have d: "dropWhile isSpace s = s" using ar by simp
  have p: "take 6 s \<noteq> []" using c(1) ar by simp
  have "rev s = rev (drop 6 s) @ rev (take 6 s)"
    by (metis append_take_drop_id rev_append)
  moreover have "dropWhile isSpace (rev (take 6 s)) = rev (take 6 s)"
    using c(2) p by (simp add: dropWhile_eq_self_iff hd_rev)
  ultimately have "dropWhile isSpace (rev s)
      = dropWhile isSpace (rev (drop 6 s)) @ rev (take 6 s)"
    by (simp add: dropWhile_append)
  then show ?thesis by (simp add: trim_def d)
qed

lemma hasLocalPrefix_trim: "hasLocalPrefix s \<Longrightarrow> hasLocalPrefix (trim s)"
  using hasLocalPrefix_chars(1) [of s]
  by (simp add: trim_after_prefix) (simp add: hasLocalPrefix_def)

lemma trimEnd_prefix: "\<exists>ws. u = rev (dropWhile P (rev u)) @ ws"
proof -
  have "rev u = takeWhile P (rev u) @ dropWhile P (rev u)" by simp
  then have "u = rev (dropWhile P (rev u)) @ rev (takeWhile P (rev u))"
    by (metis rev_append rev_rev_ident)
  then show ?thesis by blast
qed

lemma beginsWithDirective_trim:
  assumes "beginsWithDirective s"
  shows "beginsWithDirective (trim s)"
proof -
  have p: "hasLocalPrefix s" using assms by (rule beginsWithDirective_prefix)
  note c = hasLocalPrefix_chars [OF p]
  let ?u = "drop 6 s"
  let ?e = "rev (dropWhile isSpace (rev ?u))"
  have t: "trim s = take 6 s @ ?e" using p by (rule trim_after_prefix)
  have l: "length (take 6 s) = 6" using c(1) by simp
  have "length (trim s) = 6 \<or> \<not> isWordChar (trim s ! 6)"
  proof (cases "?e = []")
    case True
    then show ?thesis using t l by simp
  next
    case False
    obtain ws where ws: "?u = ?e @ ws" using trimEnd_prefix by blast
    from False ws have "?u \<noteq> []" by auto
    then have len: "length s > 6" by simp
    have "trim s ! 6 = ?e ! 0" using t l by (simp add: nth_append)
    also have "\<dots> = ?u ! 0" using False ws by (metis length_greater_0_conv nth_append)
    also have "\<dots> = s ! 6" using len by simp
    finally show ?thesis
      using assms len by (simp add: beginsWithDirective_def)
  qed
  moreover have "map toLowerCaseChar (take 6 (trim s)) = ''!local''"
    using t l p by (simp add: hasLocalPrefix_def)
  moreover have "length (trim s) \<ge> 6" using t l by simp
  ultimately show ?thesis by (simp add: beginsWithDirective_def)
qed

lemma directive_not_mention: "beginsWithDirective s \<Longrightarrow> \<not> (s \<noteq> [] \<and> hd s = CHR ''@'')"
proof
  assume b: "beginsWithDirective s" and "s \<noteq> [] \<and> hd s = CHR ''@''"
  then obtain r where "s = CHR ''@'' # r" by (cases s) auto
  with b show False by (simp add: beginsWithDirective_def toLowerCaseChar_def)
qed

subsection \<open>The explicit local directive\<close>

text \<open>
  C1. Under an enabled policy, a non-empty conversation whose subject message, once its
  leading mention is stripped, begins with the token \<^verbatim>\<open>!local\<close> (in any case, ending at
  a word boundary) is classified forced-local, whatever the length and content of the
  message, whatever privacy keywords are configured or present, and whatever the
  regular-expression engine does with them.
\<close>

theorem forced_local:
  assumes "fst (loadConfig file cache) = Some c" and "enabled c"
    and "messages \<noteq> []"
    and "beginsWithDirective (claimedStripMention (content (subjectMessage messages)))"
  shows "fst (classifyMessages engine file messages cache) = Inr OllamaForced"
proof -
  let ?s = "content (subjectMessage messages)"
  have "claimedStripMention ?s = afterMention ?s"
    using claimedStripMention_cases [of ?s] directive_not_mention [of ?s] assms(4) by auto
  with assms(4) have "beginsWithDirective (subjectText messages)"
    by (simp add: subjectText_def beginsWithDirective_trim)
  then show ?thesis
    using assms(1-3)
    by (simp add: classifyMessages_fst classify_def mentionStripped_subjectText
          testLocalDirective_iff)
qed

theorem forced_local_witness:
  "beginsWithDirective (claimedStripMention (content (subjectMessage
      [botMessage ''Hello'',
       userMessage ''@Andy !LOCAL: my social security number is 123, what now? '',
       botMessage ''On it.''])))
   \<and> fst (classifyMessages exampleEngine (Some (exampleConfig [''social security'', ''(''] [''what'']))
        [botMessage ''Hello'',
         userMessage ''@Andy !LOCAL: my social security number is 123, what now? '',
         botMessage ''On it.''] None)
      = Inr OllamaForced"
proof -
  let ?c = "exampleConfig [''social security'', ''(''] [''what'']"
  let ?ms = "[botMessage ''Hello'',
       userMessage ''@Andy !LOCAL: my social security number is 123, what now? '',
       botMessage ''On it.'']"
  have h1: "fst (loadConfig (Some ?c) None) = Some ?c" by (simp add: loadConfig_def)
  have h2: "enabled ?c" by (simp add: exampleConfig_def)
  have h3: "?ms \<noteq> []" by simp
  have h4: "beginsWithDirective (claimedStripMention (content (subjectMessage ?ms)))"
    by code_simp
  show ?thesis using h4 forced_local [OF h1 h2 h3 h4, of exampleEngine] by simp
qed

subsection \<open>The dispatcher\<close>

lemma queryOllamaBody_fails_iff:
  "(\<exists>e. queryOllamaBody f = Inl e) \<longleftrightarrow> backendFails f"
  by (auto simp: queryOllamaBody_def backendFails_def wellFormedPayload_def getProp_def
           split: fetch_outcome.splits json_outcome.splits json.splits sum.splits option.splits)

lemma queryOllama_requests:
  "snd (queryOllama net p m b ms) =
     [\<lparr>req_url = b @ ''/api/generate'', req_model = m, req_prompt = p,
       req_stream = False, req_timeoutMs = ms\<rparr>]"
  by (simp add: queryOllama_def Let_def)

lemma queryOllama_fails_iff:
  "(\<exists>e. fst (queryOllama net p m b ms) = Inl e) \<longleftrightarrow>
   backendFails (net \<lparr>req_url = b @ ''/api/generate'', req_model = m, req_prompt = p,
       req_stream = False, req_timeoutMs = ms\<rparr>)"
  using queryOllamaBody_fails_iff [of "net \<lparr>req_url = b @ ''/api/generate'', req_model = m, req_prompt = p,
       req_stream = False, req_timeoutMs = ms\<rparr>"]
  by (auto simp: queryOllama_def Let_def split: sum.splits)

lemma extractLastUserText_nonempty:
  "messages \<noteq> [] \<Longrightarrow> \<exists>t. extractLastUserText messages = Inr t"
  by (simp add: extractLastUserText_def lastUserMessage_def Let_def)

lemma classify_Inr_nonempty:
  "classify engine (Some c) messages = Inr d \<Longrightarrow> d \<noteq> Claude \<Longrightarrow> messages \<noteq> []"
  by (auto simp: classify_def mentionStripped_def lastUserMessage_def split: if_splits)

lemma tryOllamaRoute_local:
  assumes "fst (loadConfig file cache) = Some c" and "enabled c"
    and "fst (classifyMessages engine file messages cache) = Inr d" and "d \<noteq> Claude"
    and "extractLastUserText messages = Inr t"
  shows "tryOllamaRoute engine net file messages g cache =
     (let model' = (if d = OllamaSimple then simple (models (ollama c)) else general (models (ollama c)));
          q = queryOllama net t model' (baseUrl (ollama c)) (timeoutMs (ollama c))
      in \<lparr>returned = (case fst q of Inl err \<Rightarrow> Inr None
                       | Inr r \<Rightarrow> Inr (Some (if d = OllamaPrivacy then Private else Local, r))),
          requests = snd q,
          cacheAfter = snd (loadConfig file cache)\<rparr>)"
proof -
  obtain c1 where l: "loadConfig file cache = (Some c, c1)"
    using assms(1) by (cases "loadConfig file cache") simp
  have l2: "loadConfig file c1 = (Some c, c1)"
    using loadConfig_again [of "file" cache] l by simp
  have d: "classify engine (Some c) messages = Inr d"
    using assms(1,3) by (simp add: classifyMessages_fst)
  show ?thesis
    using assms(2,4,5) d
    by (cases d) (simp_all add: tryOllamaRoute_def l l2 classifyMessages_def Let_def
                     split: prod.splits sum.splits)
qed

text \<open>
  C7. When the dispatcher calls the backend, which it does exactly once for a local
  decision under an enabled policy, the model of the request is the policy's \<^verbatim>\<open>simple\<close>
  model when the decision is simple-local and the \<^verbatim>\<open>general\<close> model for the other
  local decisions, forced-local and privacy-local.
\<close>

theorem model_selection:
  assumes "fst (loadConfig file cache) = Some c" and "enabled c"
    and "fst (classifyMessages engine file messages cache) = Inr d" and "d \<noteq> Claude"
  shows "map req_model (requests (tryOllamaRoute engine net file messages g cache)) =
           [if d = OllamaSimple then simple (models (ollama c)) else general (models (ollama c))]"
proof -
  have "messages \<noteq> []"
    using assms classify_Inr_nonempty by (simp add: classifyMessages_fst)
  then obtain t where "extractLastUserText messages = Inr t"
    using extractLastUserText_nonempty by blast
  from tryOllamaRoute_local [OF assms this] show ?thesis
    by (simp add: Let_def queryOllama_requests)
qed

theorem model_selection_witness:
  "map req_model (requests (tryOllamaRoute exampleEngine (exampleNet (FetchRejected (Exn ''TypeError'' ''fetch failed'')))
        (Some (exampleConfig [''social security''] [''what'']))
        [userMessage ''@Andy What is 2+2?''] ''main'' None)) = [''small'']
   \<and> map req_model (requests (tryOllamaRoute exampleEngine (exampleNet (FetchRejected (Exn ''TypeError'' ''fetch failed'')))
        (Some (exampleConfig [''social security''] [''what'']))
        [userMessage ''@Andy !local tell me a joke''] ''main'' None)) = [''medium'']"
proof -
  let ?c = "exampleConfig [''social security''] [''what'']"
  have h1: "fst (loadConfig (Some ?c) None) = Some ?c" by (simp add: loadConfig_def)
  have h2: "enabled ?c" by (simp add: exampleConfig_def)
  have s: "fst (classifyMessages exampleEngine (Some ?c) [userMessage ''@Andy What is 2+2?''] None) = Inr OllamaSimple"
    by code_simp
  have f: "fst (classifyMessages exampleEngine (Some ?c) [userMessage ''@Andy !local tell me a joke''] None) = Inr OllamaForced"
    by code_simp
  have n1: "OllamaSimple \<noteq> Claude" and n2: "OllamaForced \<noteq> Claude" by simp_all
  show ?thesis
    using model_selection [OF h1 h2 s n1] model_selection [OF h1 h2 f n2]
    by (simp add: exampleConfig_def)
qed

text \<open>
  C5. When the classifier yields a local decision and the backend call the dispatcher
  issues fails (rejected request, status outside the success range, unreadable or
  malformed payload, abort by the timer), the dispatcher returns \<^verbatim>\<open>null\<close>: no
  exception leaves it.
\<close>

theorem backend_failure_absorbed:
  assumes "fst (loadConfig file cache) = Some c" and "enabled c"
    and "fst (classifyMessages engine file messages cache) = Inr d" and "d \<noteq> Claude"
    and "\<forall>req \<in> set (requests (tryOllamaRoute engine net file messages g cache)). backendFails (net req)"
  shows "returned (tryOllamaRoute engine net file messages g cache) = Inr None"
proof -
  have "messages \<noteq> []"
    using assms classify_Inr_nonempty by (simp add: classifyMessages_fst)
  then obtain t where t: "extractLastUserText messages = Inr t"
    using extractLastUserText_nonempty by blast
  let ?m = "if d = OllamaSimple then simple (models (ollama c)) else general (models (ollama c))"
  let ?q = "queryOllama net t ?m (baseUrl (ollama c)) (timeoutMs (ollama c))"
  note r = tryOllamaRoute_local [OF assms(1-4) t, where net = net and g = g]
  have "requests (tryOllamaRoute engine net file messages g cache) = snd ?q"
    by (simp add: r Let_def)
  with assms(5) have "\<exists>e. fst ?q = Inl e"
    by (simp add: queryOllama_requests queryOllama_fails_iff)
  then show ?thesis
    by (auto simp: r Let_def)
qed

theorem backend_failure_absorbed_witness:
  "returned (tryOllamaRoute exampleEngine (exampleNet (FetchRejected (Exn ''AbortError'' ''This operation was aborted'')))
        (Some (exampleConfig [''social security''] [''what'']))
        [userMessage ''@Andy What is 2+2?''] ''main'' None) = Inr None
   \<and> returned (tryOllamaRoute exampleEngine
        (exampleNet (FetchResponse \<lparr>status = 503, statusText = ''Service Unavailable'',
                                    body = JsonRejected (Exn ''SyntaxError'' ''Unexpected token'')\<rparr>))
        (Some (exampleConfig [''social security''] [''what'']))
        [userMessage ''@Andy What is 2+2?''] ''main'' None) = Inr None
   \<and> returned (tryOllamaRoute exampleEngine
        (exampleNet (FetchResponse \<lparr>status = 200, statusText = ''OK'',
                                    body = JsonValue (JObject [(''response'', JString ''4'')])\<rparr>))
        (Some (exampleConfig [''social security''] [''what'']))
        [userMessage ''@Andy What is 2+2?''] ''main'' None) = Inr None"
proof -
  let ?c = "exampleConfig [''social security''] [''what'']"
  let ?ms = "[userMessage ''@Andy What is 2+2?'']"
  have h1: "fst (loadConfig (Some ?c) None) = Some ?c" by (simp add: loadConfig_def)
  have h2: "enabled ?c" by (simp add: exampleConfig_def)
  have s: "fst (classifyMessages exampleEngine (Some ?c) ?ms None) = Inr OllamaSimple"
    by code_simp
  have n: "OllamaSimple \<noteq> Claude" by simp
  have a: "\<forall>req \<in> set (requests (tryOllamaRoute exampleEngine (exampleNet f) (Some ?c) ?ms ''main'' None)).
             backendFails (exampleNet f req)"
    if "backendFails f" for f
    using that by (simp add: exampleNet_def)
  have f1: "backendFails (FetchRejected (Exn ''AbortError'' ''This operation was aborted''))"
    by (simp add: backendFails_def)
  have f2: "backendFails (FetchResponse \<lparr>status = 503, statusText = ''Service Unavailable'',
                                    body = JsonRejected (Exn ''SyntaxError'' ''Unexpected token'')\<rparr>)"
    by (simp add: backendFails_def ok_def)
  have f3: "backendFails (FetchResponse \<lparr>status = 200, statusText = ''OK'',
                                    body = JsonValue (JObject [(''response'', JString ''4'')])\<rparr>)"
    by (simp add: backendFails_def ok_def wellFormedPayload_def truthy_def)
  show ?thesis
    using backend_failure_absorbed [OF h1 h2 s n a [OF f1]]
      backend_failure_absorbed [OF h1 h2 s n a [OF f2]]
      backend_failure_absorbed [OF h1 h2 s n a [OF f3]]
    by simp
qed

text \<open>
  C10. When the policy is unavailable (no cached configuration and no readable file) or
  disabled, the classifier returns the remote decision, and the dispatcher returns
  \<^verbatim>\<open>null\<close> without sending any request to the backend.
\<close>

theorem routing_off:
  assumes "\<forall>c. fst (loadConfig file cache) = Some c \<longrightarrow> \<not> enabled c"
  shows "fst (classifyMessages engine file messages cache) = Inr Claude
         \<and> returned (tryOllamaRoute engine net file messages g cache) = Inr None
         \<and> requests (tryOllamaRoute engine net file messages g cache) = []"
  using assms
  by (cases "loadConfig file cache")
     (auto simp: classifyMessages_fst classify_def tryOllamaRoute_def split: option.splits)

theorem routing_off_witness:
  "fst (classifyMessages exampleEngine None [userMessage ''@Andy !local tell me a joke''] None) = Inr Claude
   \<and> requests (tryOllamaRoute exampleEngine (exampleNet (FetchRejected (Exn ''TypeError'' ''fetch failed''))) None
        [userMessage ''@Andy !local tell me a joke''] ''main'' None) = []
   \<and> fst (classifyMessages exampleEngine None [userMessage ''@Andy !local tell me a joke'']
        (Some ((exampleConfig [] [''what'']) \<lparr>enabled := False\<rparr>))) = Inr Claude
   \<and> returned (tryOllamaRoute exampleEngine (exampleNet (FetchRejected (Exn ''TypeError'' ''fetch failed''))) None
        [userMessage ''@Andy !local tell me a joke''] ''main''
        (Some ((exampleConfig [] [''what'']) \<lparr>enabled := False\<rparr>))) = Inr None"
proof -
  have h1: "\<forall>c. fst (loadConfig None None) = Some c \<longrightarrow> \<not> enabled c"
    by (simp add: loadConfig_def)
  have h2: "\<forall>c. fst (loadConfig None (Some ((exampleConfig [] [''what'']) \<lparr>enabled := False\<rparr>))) = Some c
              \<longrightarrow> \<not> enabled c"
    by (simp add: loadConfig_def)
  show ?thesis
    using routing_off [OF h1] routing_off [OF h2] by simp
qed

subsection \<open>The simple-question heuristic\<close>

declare tokens.simps [simp del]

lemma splitWs_nonempty: "splitWs s \<noteq> []"
  by (induction s rule: splitWs.induct) (auto split: list.splits)

lemma tokens_Nil: "tokens [] = []"
  by (simp add: tokens.simps)

lemma tokens_space: "isSpace c \<Longrightarrow> tokens (c # cs) = tokens cs"
  by (simp add: tokens.simps [of "c # cs"] tokens.simps [of cs])

lemma tokens_nonspace:
  "\<not> isSpace c \<Longrightarrow>
   tokens (c # cs) = (c # takeWhile (\<lambda>c. \<not> isSpace c) cs) # tokens (dropWhile (\<lambda>c. \<not> isSpace c) cs)"
  by (simp add: tokens.simps [of "c # cs"])

lemma tokens_dropWhile: "tokens (dropWhile isSpace s) = tokens s"
  by (induction s) (simp_all add: tokens_space)

lemma splitWs_tokens:
  "s = [] \<or> \<not> isSpace (last s) \<Longrightarrow>
   splitWs s = (if s = [] then [[]] else if isSpace (hd s) then [] # tokens s else tokens s)"
proof (induction s rule: splitWs.induct)
  case 1
  show ?case by simp
next
  case (2 c cs)
  show ?case
  proof (cases "isSpace c")
    case True
    let ?r = "dropWhile isSpace cs"
    from 2(3) True have cs: "cs \<noteq> []" and l: "\<not> isSpace (last cs)" by (auto split: if_splits)
    then have "last cs \<in> set cs" by simp
    with l have r: "?r \<noteq> []" by auto
    then have h: "\<not> isSpace (hd ?r)" by (rule hd_dropWhile)
    have "last ?r = last cs"
      using \<open>last cs \<in> set cs\<close> l by (rule dropWhile_last)
    with l have "?r = [] \<or> \<not> isSpace (last ?r)" by simp
    from 2(1) [OF True this] r h have "splitWs ?r = tokens ?r" by auto
    then show ?thesis
      using True by (simp add: tokens_space tokens_dropWhile)
  next
    case False
    from 2(3) have "cs = [] \<or> \<not> isSpace (last cs)" by (auto split: if_splits)
    note ih = 2(2) [OF False this]
    show ?thesis
    proof (cases cs)
      case Nil
      then show ?thesis using False by (simp add: tokens_nonspace tokens_Nil)
    next
      case (Cons d ds)
      show ?thesis
      proof (cases "isSpace d")
        case True
        then show ?thesis
          using ih False Cons by (simp add: tokens_nonspace)
      next
        case d: False
        then show ?thesis
          using ih False Cons by (simp add: tokens_nonspace)
      qed
    qed
  qed
qed

lemma trim_ends: "trim s = [] \<or> (\<not> isSpace (hd (trim s)) \<and> \<not> isSpace (last (trim s)))"
proof (cases "trim s = []")
  case True
  then show ?thesis by simp
next
  case False
  let ?d = "dropWhile isSpace s"
  let ?e = "dropWhile isSpace (rev ?d)"
  from False have e: "?e \<noteq> []" by (simp add: trim_def)
  then have "\<not> isSpace (hd ?e)" by (rule hd_dropWhile)
  then have l: "\<not> isSpace (last (trim s))"
    using e by (simp add: trim_def last_rev)
  from e have d: "?d \<noteq> []" by (auto dest: set_dropWhileD)
  then have hd: "\<not> isSpace (hd ?d)" by (rule hd_dropWhile)
  obtain c r where cr: "?d = c # r" using d by (cases ?d) auto
  with hd have c: "\<not> isSpace c" by simp
  have "rev ?d = rev r @ [c]" using cr by simp
  then have "?e = dropWhile isSpace (rev r) @ [c]"
    using c by (simp add: dropWhile_append3)
  then have "trim s = c # rev (dropWhile isSpace (rev r))"
    by (simp add: trim_def)
  with c l False show ?thesis by simp
qed

lemma trim_id: "s = [] \<or> (\<not> isSpace (hd s) \<and> \<not> isSpace (last s)) \<Longrightarrow> trim s = s"
proof (cases s)
  case Nil
  then show ?thesis by (simp add: trim_def)
next
  case (Cons c r)
  assume "s = [] \<or> (\<not> isSpace (hd s) \<and> \<not> isSpace (last s))"
  with Cons have c: "\<not> isSpace c" and l: "\<not> isSpace (last s)" by auto
  have "dropWhile isSpace (rev s) = rev s"
    using l by (simp add: dropWhile_eq_self_iff hd_rev)
  then show ?thesis using c Cons by (simp add: trim_def)
qed

lemma trim_trim: "trim (trim s) = trim s"
  using trim_ends [of s] by (rule trim_id)

lemma trim_Nil: "trim [] = []"
  by (simp add: trim_def)

lemma letter_codes:
  "(97 \<le> (of_char c :: nat) \<and> (of_char c :: nat) \<le> 122)
     \<longleftrightarrow> c \<in> set ''abcdefghijklmnopqrstuvwxyz''"
  (is "?L = ?R")
proof
  assume ?R
  then show ?L by auto
next
  assume ?L
  then have "(of_char c :: nat) \<in> {97 ..< 123}" by simp
  then have "(of_char c :: nat) \<in> set [97 ..< 123]" by (simp only: set_upt)
  then have "char_of (of_char c :: nat) \<in> char_of ` set [97 ..< 123 :: nat]" by (rule imageI)
  moreover have "map char_of [97 ..< 123 :: nat] = ''abcdefghijklmnopqrstuvwxyz''"
    by code_simp
  ultimately show ?R by (simp flip: set_map)
qed

lemma lettersOnly_keepLetters: "lettersOnly w = keepLetters w"
  unfolding lettersOnly_def keepLetters_def letter_codes ..

lemma isSimpleQuestion_trimmed:
  "isSimpleQuestion (trim s) maxWords starters = simpleAsSpecified (trim s) maxWords starters"
proof (cases "trim s = []")
  case True
  then show ?thesis
    by (simp add: isSimpleQuestion_def simpleAsSpecified_def normalizedFirstToken_def trim_Nil
          firstToken_def tokens_Nil Let_def lettersOnly_def keepLetters_def toLowerCase_def
          COMMAND_STARTERS_def)
next
  case False
  with trim_ends [of s] have e: "\<not> isSpace (hd (trim s))" "\<not> isSpace (last (trim s))" by auto
  then have sp: "splitWs (trim s) = tokens (trim s)"
    using False splitWs_tokens [of "trim s"] by simp
  obtain c r where cr: "trim s = c # r" using False by (cases "trim s") auto
  with e have "tokens (trim s) \<noteq> []" by (simp add: tokens_nonspace)
  then have "hd (tokens (trim s)) = firstToken (trim s)"
    by (cases "tokens (trim s)") (simp_all add: firstToken_def)
  then show ?thesis
    by (auto simp: isSimpleQuestion_def simpleAsSpecified_def normalizedFirstToken_def
          lettersOnly_keepLetters trim_trim sp Let_def)
qed

lemma extractLastUserText_trimmed:
  "extractLastUserText messages = Inr b \<Longrightarrow> trim b = b"
  by (auto simp: extractLastUserText_def trim_trim split: option.splits)

subsection \<open>Keywords without syntax characters\<close>

text \<open>
  On a keyword that holds no syntax character the pattern is the phrase itself, and the
  matcher finds exactly its whole-phrase occurrences.
\<close>

lemma lastOr_simps [simp]:
  "lastOr prev [] = prev"
  "lastOr prev (c # m) = lastOr (Some c) m"
  "lastOr prev (m @ [c]) = Some c"
  by (simp_all add: lastOr_def)

lemma lastOr_append: "lastOr prev (a @ b) = lastOr (lastOr prev a) b"
  by (simp add: lastOr_def)

lemma atBoundary_wordBoundary: "atBoundary (lastOr None before) after = wordBoundary before after"
  by (cases after) (simp_all add: atBoundary_def wordBoundary_def lastOr_def)

lemma matchHere_Star:
  "matchHere (Rep a Star # is) prev s \<longleftrightarrow>
     (\<exists>ws r. s = ws @ r \<and> (\<forall>c \<in> set ws. atomMatches a c) \<and> matchHere is (lastOr prev ws) r)"
proof (induction s arbitrary: prev)
  case Nil
  show ?case by simp
next
  case (Cons d ds)
  show ?case (is "?L = ?R")
  proof
    assume ?L
    then consider "matchHere is prev (d # ds)"
      | "atomMatches a d" "matchHere (Rep a Star # is) (Some d) ds"
      by auto
    then show ?R
    proof cases
      case 1
      then have "d # ds = [] @ (d # ds) \<and> (\<forall>c \<in> set []. atomMatches a c)
                 \<and> matchHere is (lastOr prev []) (d # ds)"
        by simp
      then show ?thesis by blast
    next
      case 2
      from 2(2) obtain ws r where "ds = ws @ r" "\<forall>c \<in> set ws. atomMatches a c"
        "matchHere is (lastOr (Some d) ws) r"
        unfolding Cons.IH by blast
      with 2(1) have "d # ds = (d # ws) @ r \<and> (\<forall>c \<in> set (d # ws). atomMatches a c)
                 \<and> matchHere is (lastOr prev (d # ws)) r"
        by simp
      then show ?thesis by blast
    qed
  next
    assume ?R
    then obtain ws r where w: "d # ds = ws @ r" "\<forall>c \<in> set ws. atomMatches a c"
      "matchHere is (lastOr prev ws) r"
      by blast
    show ?L
    proof (cases ws)
      case Nil
      with w show ?thesis by simp
    next
      case (Cons e es)
      with w have "e = d" "ds = es @ r" "atomMatches a d" "\<forall>c \<in> set es. atomMatches a c"
        "matchHere is (lastOr (Some d) es) r"
        by auto
      then have "matchHere (Rep a Star # is) (Some d) ds"
        unfolding Cons.IH by blast
      with \<open>atomMatches a d\<close> show ?thesis by simp
    qed
  qed
qed

lemma matchHere_Plus:
  "matchHere (Rep a Plus # is) prev s \<longleftrightarrow>
     (\<exists>ws r. s = ws @ r \<and> ws \<noteq> [] \<and> (\<forall>c \<in> set ws. atomMatches a c)
        \<and> matchHere is (lastOr prev ws) r)"
  (is "?L = ?R")
proof
  assume ?L
  then obtain d ds where s: "s = d # ds" and d: "atomMatches a d"
    and m: "matchHere (Rep a Star # is) (Some d) ds"
    by (cases s) auto
  from m obtain ws r where "ds = ws @ r" "\<forall>c \<in> set ws. atomMatches a c"
    "matchHere is (lastOr (Some d) ws) r"
    unfolding matchHere_Star by blast
  with s d have "s = (d # ws) @ r \<and> d # ws \<noteq> [] \<and> (\<forall>c \<in> set (d # ws). atomMatches a c)
     \<and> matchHere is (lastOr prev (d # ws)) r"
    by simp
  then show ?R by blast
next
  assume ?R
  then obtain ws r where w: "s = ws @ r" "ws \<noteq> []" "\<forall>c \<in> set ws. atomMatches a c"
    "matchHere is (lastOr prev ws) r"
    by blast
  then obtain d es where ws: "ws = d # es" by (cases ws) auto
  with w have "matchHere (Rep a Star # is) (Some d) (es @ r)"
    unfolding matchHere_Star by auto
  with w ws show ?L by simp
qed

lemma matchHere_spells:
  "matchHere (map itemOf ps @ [WordBoundary]) prev s \<longleftrightarrow>
     (\<exists>m after. s = m @ after \<and> spells ps m \<and> atBoundary (lastOr prev m) after)"
proof (induction ps arbitrary: prev s)
  case Nil
  show ?case by simp
next
  case (Cons p ps)
  show ?case
  proof (cases p)
    case (Letter c)
    show ?thesis (is "?L = ?R")
    proof
      assume ?L
      then obtain ds where s: "s = c # ds"
        and m: "matchHere (map itemOf ps @ [WordBoundary]) (Some c) ds"
        using Letter by (cases s) (auto simp: atomMatches_def)
      from m obtain m' after where "ds = m' @ after" "spells ps m'"
        "atBoundary (lastOr (Some c) m') after"
        unfolding Cons.IH by blast
      with s Letter have "s = (c # m') @ after \<and> spells (p # ps) (c # m')
          \<and> atBoundary (lastOr prev (c # m')) after"
        by simp
      then show ?R by blast
    next
      assume ?R
      then obtain m after where w: "s = m @ after" "spells (p # ps) m"
        "atBoundary (lastOr prev m) after"
        by blast
      from w(2) Letter obtain m' where m': "m = c # m'" "spells ps m'" by auto
      with w have "matchHere (map itemOf ps @ [WordBoundary]) (Some c) (m' @ after)"
        unfolding Cons.IH by auto
      with w m' Letter show ?L by (simp add: atomMatches_def)
    qed
  next
    case Gap
    show ?thesis (is "?L = ?R")
    proof
      assume ?L
      then have "matchHere (Rep SpaceClass Plus # (map itemOf ps @ [WordBoundary])) prev s"
        using Gap by (simp del: matchHere.simps)
      then obtain ws r where w: "s = ws @ r" "ws \<noteq> []" "\<forall>c \<in> set ws. isSpace c"
        "matchHere (map itemOf ps @ [WordBoundary]) (lastOr prev ws) r"
        unfolding matchHere_Plus by (auto simp: atomMatches_def)
      from w(4) obtain m' after where "r = m' @ after" "spells ps m'"
        "atBoundary (lastOr (lastOr prev ws) m') after"
        unfolding Cons.IH by blast
      with w Gap have "s = (ws @ m') @ after \<and> spells (p # ps) (ws @ m')
          \<and> atBoundary (lastOr prev (ws @ m')) after"
        by (auto simp: lastOr_append)
      then show ?R by blast
    next
      assume ?R
      then obtain m after where w: "s = m @ after" "spells (p # ps) m"
        "atBoundary (lastOr prev m) after"
        by blast
      from w(2) Gap obtain ws m' where m': "m = ws @ m'" "ws \<noteq> []" "\<forall>c \<in> set ws. isSpace c"
        "spells ps m'"
        by auto
      with w have "matchHere (map itemOf ps @ [WordBoundary]) (lastOr prev ws) (m' @ after)"
        unfolding Cons.IH by (auto simp: lastOr_append)
      with w m' have "s = ws @ (m' @ after) \<and> ws \<noteq> [] \<and> (\<forall>c \<in> set ws. atomMatches SpaceClass c)
         \<and> matchHere (map itemOf ps @ [WordBoundary]) (lastOr prev ws) (m' @ after)"
        by (simp add: atomMatches_def)
      then have "matchHere (Rep SpaceClass Plus # (map itemOf ps @ [WordBoundary])) prev s"
        unfolding matchHere_Plus by blast
      then show ?L using Gap by (simp del: matchHere.simps)
    qed
  qed
qed

lemma searchFrom_iff:
  "searchFrom is prev s \<longleftrightarrow> (\<exists>before r. s = before @ r \<and> matchHere is (lastOr prev before) r)"
proof (induction s arbitrary: prev)
  case Nil
  show ?case by simp
next
  case (Cons d ds)
  show ?case (is "?L = ?R")
  proof
    assume ?L
    then consider "matchHere is prev (d # ds)" | "searchFrom is (Some d) ds" by auto
    then show ?R
    proof cases
      case 1
      then have "d # ds = [] @ (d # ds) \<and> matchHere is (lastOr prev []) (d # ds)" by simp
      then show ?thesis by blast
    next
      case 2
      then obtain before r where "ds = before @ r" "matchHere is (lastOr (Some d) before) r"
        unfolding Cons.IH by blast
      then have "d # ds = (d # before) @ r \<and> matchHere is (lastOr prev (d # before)) r" by simp
      then show ?thesis by blast
    qed
  next
    assume ?R
    then obtain before r where w: "d # ds = before @ r" "matchHere is (lastOr prev before) r"
      by blast
    show ?L
    proof (cases before)
      case Nil
      with w show ?thesis by auto
    next
      case (Cons e es)
      with w have "ds = es @ r" "matchHere is (lastOr (Some d) es) r" by auto
      then have "searchFrom is (Some d) ds" unfolding Cons.IH by blast
      then show ?thesis by simp
    qed
  qed
qed

lemma RegExp_test_phrase:
  "RegExp_test (WordBoundary # map itemOf (pieces (toLowerCase kw)) @ [WordBoundary]) t
   \<longleftrightarrow> containsPhrase kw t"
  (is "?L = ?R")
proof
  assume ?L
  then obtain before r where r: "t = before @ r" "atBoundary (lastOr None before) r"
    "matchHere (map itemOf (pieces (toLowerCase kw)) @ [WordBoundary]) (lastOr None before) r"
    by (auto simp: RegExp_test_def searchFrom_iff)
  from r(3) obtain m after where m: "r = m @ after" "spells (pieces (toLowerCase kw)) m"
    "atBoundary (lastOr (lastOr None before) m) after"
    unfolding matchHere_spells by blast
  from r m have "t = before @ m @ after \<and> spells (pieces (toLowerCase kw)) m
     \<and> wordBoundary before (m @ after) \<and> wordBoundary (before @ m) after"
    by (simp add: atBoundary_wordBoundary flip: lastOr_append)
  then show ?R unfolding containsPhrase_def by blast
next
  assume ?R
  then obtain before m after where w: "t = before @ m @ after" "spells (pieces (toLowerCase kw)) m"
    "wordBoundary before (m @ after)" "wordBoundary (before @ m) after"
    unfolding containsPhrase_def by blast
  then have "atBoundary (lastOr (lastOr None before) m) after"
    by (simp add: atBoundary_wordBoundary flip: lastOr_append)
  with w(2) have "matchHere (map itemOf (pieces (toLowerCase kw)) @ [WordBoundary])
      (lastOr None before) (m @ after)"
    unfolding matchHere_spells by blast
  with w have "t = before @ (m @ after)
     \<and> matchHere (WordBoundary # map itemOf (pieces (toLowerCase kw)) @ [WordBoundary])
         (lastOr None before) (m @ after)"
    by (simp add: atBoundary_wordBoundary)
  then show ?L unfolding RegExp_test_def searchFrom_iff by blast
qed

lemma pattern_head:
  assumes "\<forall>c \<in> set s. \<not> isSyntaxCharacter c"
  shows "\<exists>h t. replaceWsRuns s @ [CHR 0x5C, CHR ''b''] = h # t
           \<and> \<not> isQuantifierChar h \<and> h \<noteq> CHR ''{''"
  using assms by (cases s) (auto simp: isSyntaxCharacter_def isQuantifierChar_def)

lemma parseTerms_literal:
  assumes "\<forall>c \<in> set s. \<not> isSyntaxCharacter c"
  shows "parseTerms (replaceWsRuns s @ [CHR 0x5C, CHR ''b''])
           = Parsed (map itemOf (pieces s) @ [WordBoundary])"
  using assms
proof (induction s rule: pieces.induct)
  case 1
  show ?case by (simp add: consItem_def)
next
  case (2 c cs)
  show ?case
  proof (cases "isSpace c")
    case True
    let ?r = "dropWhile isSpace cs"
    have plain: "\<forall>c \<in> set ?r. \<not> isSyntaxCharacter c"
      using 2(3) by (auto dest: set_dropWhileD)
    from pattern_head [OF plain] obtain h t where
      h: "replaceWsRuns ?r @ [CHR 0x5C, CHR ''b''] = h # t" "\<not> isQuantifierChar h" "h \<noteq> CHR ''{''"
      by blast
    have "parseTerms (h # t) = Parsed (map itemOf (pieces ?r) @ [WordBoundary])"
      using 2(1) [OF True plain] h(1) by simp
    moreover have "parseTerms (CHR 0x5C # CHR ''s'' # CHR ''+'' # h # t)
        = consItem (Rep SpaceClass Plus) (parseTerms (h # t))"
      using h(2) by (simp add: takeQuantifier_def dropLazy_def isQuantifierChar_def)
    ultimately show ?thesis
      using True h(1) by (simp add: consItem_def)
  next
    case False
    have plain: "\<forall>c \<in> set cs. \<not> isSyntaxCharacter c"
      using 2(3) by simp
    from pattern_head [OF plain] obtain h t where
      h: "replaceWsRuns cs @ [CHR 0x5C, CHR ''b''] = h # t" "\<not> isQuantifierChar h" "h \<noteq> CHR ''{''"
      by blast
    have "parseTerms (h # t) = Parsed (map itemOf (pieces cs) @ [WordBoundary])"
      using 2(2) [OF False plain] h(1) by simp
    moreover have "\<not> isSyntaxCharacter c" using 2(3) by simp
    then have "parseTerms (c # h # t) = consItem (Rep (Lit c) One) (parseTerms (h # t))"
      using h(2,3)
      by (simp add: takeQuantifier_def isQuantifierChar_def isSyntaxCharacter_def)
    ultimately show ?thesis
      using False h(1) by (simp add: consItem_def)
  qed
qed

lemma parseTerms_keywordPattern:
  assumes "literalKeyword kw"
  shows "parseTerms (keywordPattern kw)
           = Parsed (WordBoundary # map itemOf (pieces (toLowerCase kw)) @ [WordBoundary])"
proof -
  have plain: "\<forall>c \<in> set (toLowerCase kw). \<not> isSyntaxCharacter c"
    using assms by (simp add: literalKeyword_def)
  from pattern_head [OF plain] obtain h t where
    h: "replaceWsRuns (toLowerCase kw) @ [CHR 0x5C, CHR ''b''] = h # t" "\<not> isQuantifierChar h"
    by blast
  have "parseTerms (CHR 0x5C # CHR ''b'' # h # t) = consItem WordBoundary (parseTerms (h # t))"
    using h(2) by simp
  then show ?thesis
    using parseTerms_literal [OF plain] h(1) by (simp add: keywordPattern_def consItem_def)
qed

lemma someKeyword_literal:
  assumes "\<forall>kw \<in> set kws. literalKeyword kw"
  shows "someKeyword engine t kws = Inr (\<exists>kw \<in> set kws. containsPhrase kw t)"
  using assms
  by (induction kws)
     (simp_all add: RegExp_new_def parseTerms_keywordPattern RegExp_test_phrase)

lemma classify_returns:
  assumes "messages \<noteq> []"
    and "\<exists>b. hasPrivacyKeyword engine messages (privacyKeywords (routing c)) = Inr b"
  shows "\<exists>d. classify engine (Some c) messages = Inr d"
  using assms mentionStripped_subjectText [OF assms(1)] extractLastUserText_nonempty [OF assms(1)]
  by (auto simp: classify_def split: bool.splits)

lemma classify_total_literal:
  assumes "messages \<noteq> []"
    and "\<forall>kw \<in> set (privacyKeywords (routing c)). literalKeyword kw"
  shows "\<exists>d. classify engine (Some c) messages = Inr d"
  using assms(1)
  by (rule classify_returns) (simp add: hasPrivacyKeyword_def someKeyword_literal [OF assms(2)])

lemma classifyMessages_cache:
  "snd (classifyMessages engine file messages cache)
     = (case cache of None \<Rightarrow> file | Some c \<Rightarrow> Some c)"
  by (simp add: classifyMessages_def loadConfig_def split: option.splits prod.splits)

subsection \<open>The decision on keywords without syntax characters\<close>

lemma extractLastUserText_subjectText:
  assumes "messages \<noteq> []" and "\<not> hasLocalPrefix (subjectText messages)"
  shows "extractLastUserText messages = Inr (subjectText messages)"
proof -
  let ?t = "afterMention (content (subjectMessage messages))"
  have "\<not> hasLocalPrefix ?t"
    using assms(2) hasLocalPrefix_trim [of ?t] by (auto simp: subjectText_def)
  then have "stripLocal ?t = ?t"
    by (simp add: stripLocal_def matchesLocal_def hasLocalPrefix_def toLowerCase_def)
  then show ?thesis
    using assms(1)
    by (simp add: extractLastUserText_def lastUserMessage_subject stripMention_afterMention
          subjectText_def)
qed

lemma classify_decision:
  assumes "fst (loadConfig file cache) = Some c" and "enabled c"
    and "messages \<noteq> []"
    and "\<forall>kw \<in> set (privacyKeywords (routing c)). literalKeyword kw"
    and "hasLocalPrefix (subjectText messages) \<longrightarrow> beginsWithDirective (subjectText messages)"
  shows "fst (classifyMessages engine file messages cache) =
     Inr (if beginsWithDirective (subjectText messages) then OllamaForced
          else if \<exists>kw \<in> set (privacyKeywords (routing c)).
                    containsPhrase kw (toLowerCase (join (map content messages)))
               then OllamaPrivacy
          else if simpleAsSpecified (subjectText messages) (maxWordsForSimple (routing c))
                    (simpleStarters (routing c))
               then OllamaSimple
          else Claude)"
proof (cases "beginsWithDirective (subjectText messages)")
  case True
  then show ?thesis
    using assms(1-3)
    by (simp add: classifyMessages_fst classify_def mentionStripped_subjectText
          testLocalDirective_iff)
next
  case False
  with assms(5) have n: "\<not> hasLocalPrefix (subjectText messages)" by blast
  have p: "hasPrivacyKeyword engine messages (privacyKeywords (routing c))
      = Inr (\<exists>kw \<in> set (privacyKeywords (routing c)).
               containsPhrase kw (toLowerCase (join (map content messages))))"
    using assms(4) by (simp add: hasPrivacyKeyword_def someKeyword_literal)
  have q: "isSimpleQuestion (subjectText messages) m st
      = simpleAsSpecified (subjectText messages) m st" for m st
    unfolding subjectText_def by (rule isSimpleQuestion_trimmed)
  show ?thesis
    using assms(1-3) False
    by (simp add: classifyMessages_fst classify_def mentionStripped_subjectText
          testLocalDirective_iff p q extractLastUserText_subjectText [OF assms(3) n])
qed

lemma privacy_local_literal:
  assumes "fst (loadConfig file cache) = Some c" and "enabled c"
    and "messages \<noteq> []"
    and "\<forall>kw \<in> set (privacyKeywords (routing c)). literalKeyword kw"
    and "\<not> hasLocalPrefix (subjectText messages)"
    and "kw \<in> set (privacyKeywords (routing c))"
    and "containsPhrase kw (toLowerCase (join (map content messages)))"
  shows "fst (classifyMessages engine file messages cache) = Inr OllamaPrivacy"
proof -
  have "\<not> beginsWithDirective (subjectText messages)"
    using assms(5) beginsWithDirective_prefix by blast
  then show ?thesis
    using classify_decision [OF assms(1-4), of engine] assms(5-7) by auto
qed

lemma simple_question_literal:
  assumes "fst (loadConfig file cache) = Some c" and "enabled c"
    and "messages \<noteq> []"
    and "\<forall>kw \<in> set (privacyKeywords (routing c)). literalKeyword kw"
    and "\<forall>kw \<in> set (privacyKeywords (routing c)).
           \<not> containsPhrase kw (toLowerCase (join (map content messages)))"
    and "\<not> hasLocalPrefix (subjectText messages)"
  shows "fst (classifyMessages engine file messages cache) =
           Inr (if simpleAsSpecified (subjectText messages) (maxWordsForSimple (routing c))
                     (simpleStarters (routing c))
                then OllamaSimple else Claude)"
proof -
  have "\<not> beginsWithDirective (subjectText messages)"
    using assms(6) beginsWithDirective_prefix by blast
  then show ?thesis
    using classify_decision [OF assms(1-4), of engine] assms(5,6) by auto
qed

lemma simple_question_example:
  "fst (classifyMessages engine (Some (exampleConfig [] [''whats'']))
      [userMessage ''@Andy What's 2+2?''] None) = Inr OllamaSimple"
  by code_simp

subsection \<open>The simple-question rule\<close>

lemma RegExp_new_open_group: "RegExp_new engine (keywordPattern ''('') = Inl SyntaxError"
proof -
  have "parseTerms (keywordPattern ''('') = Rejected" by code_simp
  then show ?thesis by (simp add: RegExp_new_def)
qed

text \<open>
  C3 at a failing input. The policy has the keyword \<^verbatim>\<open>(\<close>, and the message is
  \<^verbatim>\<open>@Andy What is 2+2?\<close>: there is no directive, the phrase \<^verbatim>\<open>(\<close> does not occur, and
  the bare text has three tokens, begins with the starter \<^verbatim>\<open>what\<close> and holds a question
  mark, so C3 asks for simple-local. The keyword is compiled as the pattern \<^verbatim>\<open>\b(\b\<close>,
  and the SyntaxError of \<^verbatim>\<open>new RegExp\<close> leaves the classifier.
\<close>

theorem simple_question_raises:
  "\<not> beginsWithDirective (claimedStripMention ''@Andy What is 2+2?'')
   \<and> \<not> containsPhrase ''('' (toLowerCase (join (map content [userMessage ''@Andy What is 2+2?''])))
   \<and> simpleAsSpecified (claimedBareText ''@Andy What is 2+2?'') 6 [''what'']
   \<and> fst (classifyMessages engine (Some (exampleConfig [''(''] [''what'']))
        [userMessage ''@Andy What is 2+2?''] None) = Inl SyntaxError"
proof -
  let ?ms = "[userMessage ''@Andy What is 2+2?'']"
  have 1: "\<not> beginsWithDirective (claimedStripMention ''@Andy What is 2+2?'')"
    by code_simp
  have t: "toLowerCase (join (map content ?ms)) = ''@andy what is 2+2?''"
    by code_simp
  have p: "pieces (toLowerCase ''('') = [Letter CHR ''('']" by code_simp
  have 2: "\<not> containsPhrase ''('' (toLowerCase (join (map content ?ms)))"
  proof
    assume "containsPhrase ''('' (toLowerCase (join (map content ?ms)))"
    then obtain before after where "''@andy what is 2+2?'' = before @ ''('' @ after"
      unfolding containsPhrase_def t p by auto
    then have "CHR ''('' \<in> set ''@andy what is 2+2?''"
      by (metis in_set_conv_decomp append_Cons append_Nil)
    then show False by simp
  qed
  have 3: "simpleAsSpecified (claimedBareText ''@Andy What is 2+2?'') 6 [''what'']"
    by code_simp
  have m: "mentionStripped ?ms = Inr ''What is 2+2?''" by code_simp
  have d: "\<not> testLocalDirective ''What is 2+2?''" by code_simp
  have "hasPrivacyKeyword engine ?ms [''(''] = Inl SyntaxError"
    by (simp add: hasPrivacyKeyword_def RegExp_new_open_group)
  then have 4: "fst (classifyMessages engine (Some (exampleConfig [''(''] [''what''])) ?ms None)
      = Inl SyntaxError"
    using m d by (simp add: classifyMessages_fst loadConfig_def classify_def exampleConfig_def)
  from 1 2 3 4 show ?thesis by blast
qed

text \<open>
  A second input on which C3 fails. The text \<^verbatim>\<open>!localwhat is 2+2?\<close> is no directive,
  since a word character follows \<^verbatim>\<open>!local\<close>, and as it stands it is no simple question.
  The pattern \<^verbatim>\<open>/^!local\s*/i\<close> of \<^verbatim>\<open>extractLastUserText\<close> has no \<^verbatim>\<open>\b\<close>, unlike the
  test \<^verbatim>\<open>/^!local\b/i\<close> of the classifier: it removes the prefix, and the rest is
  classified simple-local.
\<close>

lemma local_prefix_stripped:
  "\<not> beginsWithDirective (claimedStripMention ''@Andy !localwhat is 2+2?'')
   \<and> claimedBareText ''@Andy !localwhat is 2+2?'' = ''!localwhat is 2+2?''
   \<and> \<not> simpleAsSpecified ''!localwhat is 2+2?'' 6 [''what'']
   \<and> extractLastUserText [userMessage ''@Andy !localwhat is 2+2?''] = Inr ''what is 2+2?''
   \<and> fst (classifyMessages engine (Some (exampleConfig [] [''what'']))
        [userMessage ''@Andy !localwhat is 2+2?''] None) = Inr OllamaSimple"
  by code_simp

subsection \<open>Command starters\<close>




subsection \<open>The bare text\<close>







subsection \<open>The backend call\<close>

lemma queryOllamaBody_timedOut:
  "timedOut f \<Longrightarrow> \<exists>e. queryOllamaBody f = Inl e \<and> name e = ''AbortError''"
  by (auto simp: timedOut_def queryOllamaBody_def split: fetch_outcome.splits json_outcome.splits)

lemma timeoutError_message:
  "timeoutError ms \<noteq> Exn ''Error'' (''Ollama HTTP '' @ x)"
  "timeoutError ms \<noteq> Exn ''Error'' ''Unexpected Ollama response format''"
  by (simp_all add: timeoutError_def)

lemma queryOllamaBody_client_errors:
  assumes "statusOutsideSuccess f \<or> payloadMalformed f" and "\<not> timedOut f"
  shows "\<exists>e. queryOllamaBody f = Inl e \<and> name e \<noteq> ''AbortError'' \<and> e \<noteq> timeoutError ms"
  using assms timeoutError_message [of ms]
  by (auto simp: statusOutsideSuccess_def payloadMalformed_def timedOut_def queryOllamaBody_def
        wellFormedPayload_def getProp_def timeoutError_def
        split: fetch_outcome.splits json_outcome.splits json.splits option.splits)

text \<open>
  C9, as stated, fails: the call also fails when \<^verbatim>\<open>fetch\<close> itself is rejected for a
  reason other than the timer, such as a refused connection, where there is no status,
  no payload and no timeout.
\<close>

theorem backend_call_counterexample:
  "\<not> claimedFailure (FetchRejected (Exn ''TypeError'' ''fetch failed''))
   \<and> fst (queryOllama (exampleNet (FetchRejected (Exn ''TypeError'' ''fetch failed'')))
        ''What is 2+2?'' ''small'' ''http://localhost:11434'' 30000)
      = Inl (Exn ''TypeError'' ''fetch failed'')"
  by code_simp

text \<open>
  C9, amended. The backend call fails exactly when the request is rejected (a network
  failure, or the timer aborting it), or the status is outside the success range, or the
  body cannot be read as JSON (also when the timer aborts the read), or the payload is
  not an object with a set completed flag and a string as generated text. When the timer
  aborts the exchange the failure is the dedicated timeout error, and the failures
  reported for a bad status or a malformed payload are different from it.
\<close>

theorem backend_call:
  "\<forall>req \<in> set (snd (queryOllama net p m b ms)).
     ((\<exists>e. fst (queryOllama net p m b ms) = Inl e) \<longleftrightarrow> backendFails (net req))
     \<and> (timedOut (net req) \<longrightarrow> fst (queryOllama net p m b ms) = Inl (timeoutError ms))
     \<and> ((statusOutsideSuccess (net req) \<or> payloadMalformed (net req)) \<and> \<not> timedOut (net req) \<longrightarrow>
          (\<exists>e. fst (queryOllama net p m b ms) = Inl e \<and> e \<noteq> timeoutError ms))"
proof -
  let ?req = "\<lparr>req_url = b @ ''/api/generate'', req_model = m, req_prompt = p,
       req_stream = False, req_timeoutMs = ms\<rparr>"
  have 1: "(\<exists>e. fst (queryOllama net p m b ms) = Inl e) \<longleftrightarrow> backendFails (net ?req)"
    by (rule queryOllama_fails_iff)
  have 2: "fst (queryOllama net p m b ms) = Inl (timeoutError ms)" if "timedOut (net ?req)"
    using queryOllamaBody_timedOut [OF that]
    by (auto simp: queryOllama_def Let_def rethrow_def timeoutError_def)
  have 3: "\<exists>e. fst (queryOllama net p m b ms) = Inl e \<and> e \<noteq> timeoutError ms"
    if "statusOutsideSuccess (net ?req) \<or> payloadMalformed (net ?req)" "\<not> timedOut (net ?req)"
    using queryOllamaBody_client_errors [OF that, of ms]
    by (auto simp: queryOllama_def Let_def rethrow_def)
  show ?thesis
    using 1 2 3 by (simp add: queryOllama_requests)
qed

theorem backend_call_witness:
  "timedOut (FetchRejected (Exn ''AbortError'' ''This operation was aborted''))
   \<and> fst (queryOllama (exampleNet (FetchRejected (Exn ''AbortError'' ''This operation was aborted'')))
        ''What is 2+2?'' ''small'' ''http://localhost:11434'' 30000)
      = Inl (Exn ''Error'' ''Ollama timed out after 30000ms'')
   \<and> statusOutsideSuccess (FetchResponse \<lparr>status = 503, statusText = ''Service Unavailable'',
         body = JsonValue (JObject [(''done'', JBool True), (''response'', JString ''4'')])\<rparr>)
   \<and> fst (queryOllama
        (exampleNet (FetchResponse \<lparr>status = 503, statusText = ''Service Unavailable'',
           body = JsonValue (JObject [(''done'', JBool True), (''response'', JString ''4'')])\<rparr>))
        ''What is 2+2?'' ''small'' ''http://localhost:11434'' 30000)
      \<noteq> Inl (Exn ''Error'' ''Ollama timed out after 30000ms'')
   \<and> \<not> backendFails (FetchResponse \<lparr>status = 200, statusText = ''OK'',
         body = JsonValue (JObject [(''done'', JBool True), (''response'', JString ''4'')])\<rparr>)
   \<and> (\<forall>e. fst (queryOllama
        (exampleNet (FetchResponse \<lparr>status = 200, statusText = ''OK'',
           body = JsonValue (JObject [(''done'', JBool True), (''response'', JString ''4'')])\<rparr>))
        ''What is 2+2?'' ''small'' ''http://localhost:11434'' 30000) \<noteq> Inl e)"
proof -
  define abort where "abort = FetchRejected (Exn ''AbortError'' ''This operation was aborted'')"
  define busy where "busy = FetchResponse \<lparr>status = 503, statusText = ''Service Unavailable'',
         body = JsonValue (JObject [(''done'', JBool True), (''response'', JString ''4'')])\<rparr>"
  define fine where "fine = FetchResponse \<lparr>status = 200, statusText = ''OK'',
         body = JsonValue (JObject [(''done'', JBool True), (''response'', JString ''4'')])\<rparr>"
  define q where "q = (\<lambda>f. queryOllama (exampleNet f) ''What is 2+2?'' ''small''
         ''http://localhost:11434'' 30000)"
  define late where "late = Exn ''Error'' ''Ollama timed out after 30000ms''"
  have t: "timeoutError 30000 = late"
    by (simp add: late_def timeoutError_def showInt_def digitChar_def)
  have a: "timedOut abort"
    by (simp add: abort_def timedOut_def)
  have b: "statusOutsideSuccess busy" and b': "\<not> timedOut busy"
    by (simp_all add: busy_def statusOutsideSuccess_def timedOut_def ok_def)
  have c: "\<not> backendFails fine"
    by (simp add: fine_def backendFails_def ok_def wellFormedPayload_def truthy_def)
  have sent: "\<exists>req. req \<in> set (snd (q f)) \<and> exampleNet f req = f" for f
    by (simp add: q_def queryOllama_requests exampleNet_def)
  have call: "\<forall>req \<in> set (snd (q f)).
     ((\<exists>e. fst (q f) = Inl e) \<longleftrightarrow> backendFails (exampleNet f req))
     \<and> (timedOut (exampleNet f req) \<longrightarrow> fst (q f) = Inl (timeoutError 30000))
     \<and> ((statusOutsideSuccess (exampleNet f req) \<or> payloadMalformed (exampleNet f req))
          \<and> \<not> timedOut (exampleNet f req) \<longrightarrow>
          (\<exists>e. fst (q f) = Inl e \<and> e \<noteq> timeoutError 30000))" for f
    unfolding q_def by (rule backend_call)
  have 1: "fst (q abort) = Inl late"
    using call [of abort] sent [of abort] a t by metis
  have 2: "fst (q busy) \<noteq> Inl late"
    using call [of busy] sent [of busy] b b' t by (metis sum.inject(1))
  have 3: "\<forall>e. fst (q fine) \<noteq> Inl e"
    using call [of fine] sent [of fine] c by metis
  note facts = a 1 b 2 c 3
  show ?thesis
    using facts [unfolded abort_def busy_def fine_def q_def late_def]
    by - (intro conjI, assumption+)
qed

subsection \<open>Privacy keywords\<close>

text \<open>
  C2 at a failing input. The keyword \<^verbatim>\<open>a+b\<close> is compiled as the pattern
  \<^verbatim>\<open>\ba+b\b\<close>, one or more \<^verbatim>\<open>a\<close> and then \<^verbatim>\<open>b\<close>. The conversation contains the
  phrase \<^verbatim>\<open>a+b\<close> as a whole word and does not begin with \<^verbatim>\<open>!local\<close>, yet the
  pattern does not match and the classifier returns the remote decision where C2 asks
  for privacy-local.
\<close>

theorem privacy_phrase_missed:
  "containsPhrase ''a+b'' (toLowerCase (join (map content [userMessage ''the a+b account is overdrawn''])))
   \<and> mentionStripped [userMessage ''the a+b account is overdrawn'']
       = Inr ''the a+b account is overdrawn''
   \<and> \<not> beginsWithDirective ''the a+b account is overdrawn''
   \<and> fst (classifyMessages engine (Some (exampleConfig [''a+b''] [''what'']))
        [userMessage ''the a+b account is overdrawn''] None) = Inr Claude"
proof -
  have t: "toLowerCase (join (map content [userMessage ''the a+b account is overdrawn'']))
           = ''the '' @ ''a+b'' @ '' account is overdrawn''"
    by code_simp
  have p: "pieces (toLowerCase ''a+b'') = [Letter CHR ''a'', Letter CHR ''+'', Letter CHR ''b'']"
    by code_simp
  have b1: "wordBoundary ''the '' (''a+b'' @ '' account is overdrawn'')"
    and b2: "wordBoundary (''the '' @ ''a+b'') '' account is overdrawn''"
    by (simp_all add: wordBoundary_def isWordChar_def)
  have "containsPhrase ''a+b'' (''the '' @ ''a+b'' @ '' account is overdrawn'')"
    unfolding containsPhrase_def p
    using b1 b2 by (intro exI [of _ "''the ''"] exI [of _ "''a+b''"] exI [of _ "'' account is overdrawn''"]) simp
  moreover have "mentionStripped [userMessage ''the a+b account is overdrawn'']
       = Inr ''the a+b account is overdrawn''"
    by code_simp
  moreover have "\<not> beginsWithDirective ''the a+b account is overdrawn''"
    by code_simp
  moreover have "fst (classifyMessages engine (Some (exampleConfig [''a+b''] [''what'']))
        [userMessage ''the a+b account is overdrawn''] None) = Inr Claude"
    by code_simp
  ultimately show ?thesis unfolding t by blast
qed

text \<open>
  On keyword lists without syntax characters the privacy rule does what C2 says: this is
  \<open>privacy_local_literal\<close> above.
\<close>

text \<open>
  C4 at a failing input. With the keyword \<^verbatim>\<open>(\<close> the pattern is \<^verbatim>\<open>\b(\b\<close>, a group
  that is never closed: \<^verbatim>\<open>new RegExp\<close> throws a SyntaxError, which leaves
  \<^verbatim>\<open>classifyMessages\<close>, where C4 asks for one of the four decisions.
\<close>

theorem classifier_raises:
  "parseTerms (keywordPattern ''('') = Rejected
   \<and> RegExp_new engine (keywordPattern ''('') = Inl SyntaxError
   \<and> fst (classifyMessages engine (Some (exampleConfig [''(''] [''what''])) [userMessage ''hello''] None)
       = Inl SyntaxError"
proof -
  have "parseTerms (keywordPattern ''('') = Rejected"
    by code_simp
  moreover have "RegExp_new engine (keywordPattern ''('') = Inl SyntaxError"
    by (rule RegExp_new_open_group)
  moreover have "fst (classifyMessages engine (Some (exampleConfig [''(''] [''what'']))
      [userMessage ''hello''] None) = Inl SyntaxError"
    by code_simp
  ultimately show ?thesis by blast
qed

text \<open>
  The rest of C4 holds: the classifier changes nothing but the cache, which it fills on
  the first successful load and never alters afterwards (\<open>classifyMessages_cache\<close>), and
  it returns a decision on every non-empty conversation for which no keyword makes
  \<^verbatim>\<open>new RegExp\<close> throw (\<open>classify_returns\<close>), as on all keyword lists without syntax
  characters (\<open>classify_total_literal\<close>).
\<close>

text \<open>
  A keyword outside the fragment, here with the wildcard \<^verbatim>\<open>.\<close>, is decided by the
  engine: the privacy test throws when it rejects the pattern and is the result of
  \<^verbatim>\<open>test\<close> otherwise.
\<close>

lemma keyword_outside_fragment:
  "hasPrivacyKeyword engine [userMessage ''my P.O. box''] [''p.o. box'']
     = (case engine (keywordPattern ''p.o. box'') of
          None \<Rightarrow> Inl SyntaxError
        | Some test \<Rightarrow> Inr (test ''my p.o. box''))"
proof -
  have "parseTerms (keywordPattern ''p.o. box'') = Outside" by code_simp
  moreover have "toLowerCase (join (map content [userMessage ''my P.O. box''])) = ''my p.o. box''"
    by code_simp
  ultimately show ?thesis
    by (simp add: hasPrivacyKeyword_def RegExp_new_def split: option.splits)
qed

end
